theory Spec2Isabelle
  imports Complex_Main "HOL-Library.AList" "HOL-Library.Log_Nat"
begin

section \<open>Data model of script.js\<close>

text \<open>
  JavaScript numbers are modelled as reals.  What \<open>Number(value)\<close> makes of the value
  of an input or of a selector's option (type \<open>num\<close>) may also be \<open>NaN\<close>, which the
  script tests for (\<open>isNaN\<close>) and from which an invalid \<open>Date\<close> is built, or one of
  the infinities; the numbers of the feed's JSON are neither.  A field that may be
  \<open>null\<close> or \<open>undefined\<close> is an option.  Timestamps are integer milliseconds since the
  epoch, as the feed delivers them.  The auto-refresh timers compute in double arithmetic
  (type \<open>dbl\<close>, below).
\<close>

datatype num = NaN | Num real | Infinity | MinusInfinity

text \<open>
  The errors that can leave a function or end the script.  (What is thrown inside a
  \<open>try\<close> is caught there and appears in the model as the branch of the \<open>catch\<close>.)
\<close>

datatype error = TypeError | RangeError | ReferenceError | OtherError

record props =
  mag :: "real option"
  place :: "string option"
  time :: "int option"
  url :: "string option"

record geom =
  coordinates :: "real list option"

record feature =
  properties :: "props option"
  geometry :: "geom option"
  id_f :: string

text \<open>What \<open>fetch\<close> followed by \<open>res.json()\<close> can deliver.\<close>

datatype body = Malformed | JsonNull | Data "feature list option"

datatype fetch_result = FetchRejected | Response bool body

subsection \<open>The feed query (buildUSGSUrl)\<close>

record bbox =
  minlatitude :: real
  maxlatitude :: real
  minlongitude :: real
  maxlongitude :: real

definition PH_BBOX :: bbox where
  "PH_BBOX = \<lparr>minlatitude = 4.5, maxlatitude = 21.0, minlongitude = 116.0, maxlongitude = 127.0\<rparr>"

text \<open>The argument object of \<open>buildUSGSUrl\<close>, with its defaults.\<close>

record url_args =
  startTimeISO :: "string option"
  endTimeISO :: "string option"
  orderby :: string
  limit :: nat
  minmag :: "real option"
  bbox :: bbox

definition url_defaults :: url_args where
  "url_defaults = \<lparr>startTimeISO = None, endTimeISO = None, orderby = ''time'', limit = 200,
     minmag = None, bbox = PH_BBOX\<rparr>"

text \<open>
  The URL is kept as its list of query parameters, in the order \<open>URLSearchParams\<close>
  holds them; a parameter value is the text or the number that \<open>String\<close> is applied to.
\<close>

datatype param = Txt string | Cnt nat | Real real

definition truthy_str :: "string option \<Rightarrow> bool" where
  "truthy_str s = (case s of None \<Rightarrow> False | Some t \<Rightarrow> t \<noteq> [])"

definition buildUSGSUrl :: "url_args \<Rightarrow> (string \<times> param) list" where
  "buildUSGSUrl a =
     [(''format'', Txt ''geojson''),
      (''orderby'', Txt (orderby a)),
      (''limit'', Cnt (limit a)),
      (''minlatitude'', Real (minlatitude (bbox a))),
      (''maxlatitude'', Real (maxlatitude (bbox a))),
      (''minlongitude'', Real (minlongitude (bbox a))),
      (''maxlongitude'', Real (maxlongitude (bbox a)))]
     @ (if truthy_str (startTimeISO a) then [(''starttime'', Txt (the (startTimeISO a)))] else [])
     @ (if truthy_str (endTimeISO a) then [(''endtime'', Txt (the (endTimeISO a)))] else [])
     @ (case minmag a of None \<Rightarrow> [] | Some m \<Rightarrow> [(''minmagnitude'', Real m)])"

subsection \<open>Dates\<close>

text \<open>
  \<open>new Date(v)\<close>: the time value is \<open>v\<close> truncated towards zero, and the date is
  invalid (\<open>None\<close>) when \<open>v\<close> is \<open>NaN\<close>, infinite or beyond 8.64e15 ms from the epoch.
\<close>

definition msPerDay :: int where
  "msPerDay = 86400000"

definition maxTime :: int where
  "maxTime = 8640000000000000"

definition timeClip :: "int \<Rightarrow> int option" where
  "timeClip t = (if \<bar>t\<bar> \<le> maxTime then Some t else None)"

definition trunc :: "real \<Rightarrow> int" where
  "trunc r = (if 0 \<le> r then \<lfloor>r\<rfloor> else \<lceil>r\<rceil>)"

definition new_Date :: "num \<Rightarrow> int option" where
  "new_Date v = (case v of
                   Num r \<Rightarrow> (if \<bar>r\<bar> \<le> real_of_int maxTime then Some (trunc r) else None)
                 | _ \<Rightarrow> None)"

text \<open>Decimal digits, zero-padded: the building blocks of \<open>toISOString\<close>.\<close>

fun dec :: "nat \<Rightarrow> string" where
  "dec n = (if n < 10 then [''0123456789'' ! n]
            else dec (n div 10) @ [''0123456789'' ! (n mod 10)])"

declare dec.simps [simp del]

definition pad :: "nat \<Rightarrow> nat \<Rightarrow> string" where
  "pad w n = replicate (w - length (dec n)) (CHR ''0'') @ dec n"

text \<open>
  The proleptic Gregorian date of a day number (days since 1970-01-01), by the usual
  era/day-of-era computation; \<open>div\<close> on integers rounds down, as the calendar needs.
\<close>

definition civil :: "int \<Rightarrow> int \<times> nat \<times> nat" where
  "civil z0 =
     (let z = z0 + 719468;
          era = z div 146097;
          doe = z - era * 146097;
          yoe = (doe - doe div 1460 + doe div 36524 - doe div 146096) div 365;
          doy = doe - (365 * yoe + yoe div 4 - yoe div 100);
          mp = (5 * doy + 2) div 153;
          d = doy - (153 * mp + 2) div 5 + 1;
          m = (if mp < 10 then mp + 3 else mp - 9);
          y = yoe + era * 400 + (if m \<le> 2 then 1 else 0)
      in (y, nat m, nat d))"

definition isoYear :: "int \<Rightarrow> string" where
  "isoYear y = (if 0 \<le> y \<and> y \<le> 9999 then pad 4 (nat y)
                else (if y < 0 then ''-'' else ''+'') @ pad 6 (nat \<bar>y\<bar>))"

text \<open>\<open>Date.prototype.toISOString\<close> on a valid time value.\<close>

definition isoString :: "int \<Rightarrow> string" where
  "isoString t =
     (let (y, m, d) = civil (t div msPerDay);
          ms = nat (t mod msPerDay)
      in isoYear y @ ''-'' @ pad 2 m @ ''-'' @ pad 2 d @ ''T''
         @ pad 2 (ms div 3600000) @ '':'' @ pad 2 (ms div 60000 mod 60) @ '':''
         @ pad 2 (ms div 1000 mod 60) @ ''.'' @ pad 3 (ms mod 1000) @ ''Z'')"

text \<open>\<open>toISOString\<close> throws a RangeError on an invalid date.\<close>

definition toISOString :: "int option \<Rightarrow> error + string" where
  "toISOString d = (case d of None \<Rightarrow> Inl RangeError | Some t \<Rightarrow> Inr (isoString t))"

subsection \<open>Helpers\<close>

definition magClass :: "real \<Rightarrow> string" where
  "magClass m = (if m \<ge> 5 then ''high'' else if m \<ge> 4 then ''mid'' else ''low'')"

definition magColor :: "real \<Rightarrow> string" where
  "magColor m = (if m \<ge> 6 then ''#d32f2f'' else if m \<ge> 5 then ''#ff5c5c''
                 else if m \<ge> 4 then ''#ffb86b'' else ''#64ffda'')"

text \<open>The \<open>x || dflt\<close> idiom on a string, a timestamp and a number.\<close>

definition or_str :: "string option \<Rightarrow> string \<Rightarrow> string" where
  "or_str s dflt = (case s of None \<Rightarrow> dflt | Some t \<Rightarrow> if t = [] then dflt else t)"

definition truthy_time :: "int option \<Rightarrow> bool" where
  "truthy_time t = (case t of None \<Rightarrow> False | Some v \<Rightarrow> v \<noteq> 0)"

definition or_time :: "int option \<Rightarrow> int \<Rightarrow> int" where
  "or_time t dflt = (if truthy_time t then the t else dflt)"

definition or_zero :: "real \<Rightarrow> real" where
  "or_zero m = (if m = 0 then 0 else m)"

subsection \<open>Double arithmetic\<close>

text \<open>
  The interval and the countdown are computed in IEEE 754 double arithmetic
  (\<open>Math.floor(validatedSecs) * 1000\<close>, \<open>Math.floor(autoInterval / 1000)\<close>,
  \<open>countdownRemaining -= 1\<close>): each operation delivers the double nearest to the exact
  result, ties to the even mantissa, and the infinity beyond the largest double.  Every
  number of the timers is an integer, an infinity or \<open>NaN\<close>.
\<close>

datatype dbl = Finite int | PosInf | NegInf | DNaN

text \<open>The quotient of \<open>num\<close> by \<open>den\<close> rounded to the nearest integer, ties to even.\<close>

definition rne :: "int \<Rightarrow> int \<Rightarrow> int" where
  "rne num den =
     (let q = num div den; r = num mod den
      in if 2 * r > den \<or> (2 * r = den \<and> odd q) then q + 1 else q)"

text \<open>
  The double nearest to \<open>num / den\<close>, for \<open>num / den\<close> of at least 1, as a mantissa of 53
  bits and a binary exponent; \<open>bitlen\<close> is the number of bits of the integer part.
\<close>

definition fl_pos :: "int \<Rightarrow> int \<Rightarrow> int \<times> int" where
  "fl_pos num den =
     (let s = bitlen (num div den) - 53
      in (if s \<ge> 0 then rne num (den * 2 ^ nat s) else rne (num * 2 ^ nat (- s)) den, s))"

definition floor_of :: "int \<times> int \<Rightarrow> int" where
  "floor_of ms = (case ms of (m, s) \<Rightarrow> if s \<ge> 0 then m * 2 ^ nat s else m div 2 ^ nat (- s))"

definition ceil_of :: "int \<times> int \<Rightarrow> int" where
  "ceil_of ms = (case ms of (m, s) \<Rightarrow> if s \<ge> 0 then m * 2 ^ nat s else - ((- m) div 2 ^ nat (- s)))"

text \<open>The largest double is less than \<open>2 ^ 1024\<close>; what rounds to it or beyond is infinite.\<close>

definition dbl_of :: "int \<Rightarrow> dbl" where
  "dbl_of m = (if m \<ge> 2 ^ 1024 then PosInf else if m \<le> - (2 ^ 1024) then NegInf else Finite m)"

text \<open>A positive integer rounded to 53 bits, and the double nearest to an integer.\<close>

definition rnd :: "int \<Rightarrow> int" where
  "rnd n = floor_of (fl_pos n 1)"

definition fl_int :: "int \<Rightarrow> dbl" where
  "fl_int n = (if n = 0 then Finite 0
               else if n > 0 then dbl_of (rnd n)
               else dbl_of (- rnd (- n)))"

text \<open>
  \<open>Math.floor(x)\<close> of a number read from an input (the floor of a double is a double;
  the rounding only matters for a real that is none), \<open>x * 1000\<close>, \<open>Math.max(5000, x)\<close>,
  \<open>Math.floor(x / 1000)\<close>, \<open>x - 1\<close> and \<open>x <= 0\<close>.
\<close>

definition floor_num :: "num \<Rightarrow> dbl" where
  "floor_num v = (case v of NaN \<Rightarrow> DNaN | Num r \<Rightarrow> fl_int \<lfloor>r\<rfloor>
                  | Infinity \<Rightarrow> PosInf | MinusInfinity \<Rightarrow> NegInf)"

definition times1000 :: "dbl \<Rightarrow> dbl" where
  "times1000 x = (case x of Finite n \<Rightarrow> fl_int (n * 1000) | _ \<Rightarrow> x)"

definition max5000 :: "dbl \<Rightarrow> dbl" where
  "max5000 x = (case x of Finite a \<Rightarrow> Finite (max 5000 a) | PosInf \<Rightarrow> PosInf
                | NegInf \<Rightarrow> Finite 5000 | DNaN \<Rightarrow> DNaN)"

definition floor_div1000 :: "dbl \<Rightarrow> dbl" where
  "floor_div1000 x =
     (case x of
        Finite a \<Rightarrow>
          if a \<ge> 1000 then dbl_of (floor_of (fl_pos a 1000))
          else if a \<ge> 0 then Finite 0
          else if a > - 1000 then Finite (- 1)
          else dbl_of (- ceil_of (fl_pos (- a) 1000))
      | _ \<Rightarrow> x)"

definition minus1 :: "dbl \<Rightarrow> dbl" where
  "minus1 x = (case x of Finite r \<Rightarrow> fl_int (r - 1) | _ \<Rightarrow> x)"

definition le_zero :: "dbl \<Rightarrow> bool" where
  "le_zero x = (case x of Finite r \<Rightarrow> r \<le> 0 | NegInf \<Rightarrow> True | _ \<Rightarrow> False)"

section \<open>Page state\<close>

text \<open>
  The view model: what the script writes into the page.  A number formatted with
  \<open>toFixed(1)\<close> or \<open>toLocaleString\<close> is kept as the number.
\<close>

record card =
  card_id :: string
  card_class :: string
  card_mag :: real
  card_place :: string
  card_time :: int
  card_focus :: "(real \<times> real) option"

record marker =
  lat :: real
  lon :: real
  radius :: real
  color :: string
  popup_mag :: real
  popup_place :: string
  popup_time :: int
  popup_depth :: "real option"
  popup_url :: string

record toast =
  about :: string
  title :: string
  toast_mag :: real
  toast_place :: "string option"
  duration :: nat

record highlight =
  hl_id :: string
  hl_mag :: real
  hl_place :: string
  hl_time :: int
  hl_depth :: "real option"
  hl_url :: string
  hl_focus :: "(real \<times> real) option"

datatype list_html = ListInitial | ListLoading | ListNoRecent | ListError | ListCards "card list"

datatype updated_text = UpdInitial | UpdBlank | Updated int | Checked int | UpdError | UpdErrorAt int

datatype mh_html = MhInitial | MhChecking | MhNoMajor | MhUnable | MhHighlight highlight

datatype stat_text = StatInitial | StatCount nat | StatMag real | StatDash

datatype countdown_text = CdInitial | CdPaused | CdSeconds dbl

datatype toggle_text = TgInitial | TgPause | TgResume

record chart =
  labels :: "string list"
  counts :: "nat list"
  backgroundColor :: "string list"

text \<open>
  The two callbacks the script hands to \<open>setInterval\<close>: the refresh cycle and the
  one-second countdown tick.
\<close>

datatype callback = CycleTimer | CountdownTick

text \<open>
  The script's global variables, the content of the page elements it writes, the
  log of the requests it has sent, and the browser's table of active interval timers
  (\<open>intervals\<close>: identifier, callback and delay; \<open>lastTimerId\<close> is the last identifier
  handed out).  An element the script only writes is modelled by
  its content (every such write is guarded by a test that the element exists); the two
  inputs it reads, \<open>refreshSecondsInput\<close> and \<open>timeRangeSel\<close>, are \<open>None\<close> when
  the element is missing and else hold \<open>Number(value)\<close>.
\<close>

record state =
  seenQuakes :: "string set"
  quakeLayer :: "marker list"
  majorMarkers :: "marker list"
  toasts :: "toast list"
  requests :: "(string \<times> param) list list"
  quakeListEl :: list_html
  lastUpdatedEl :: updated_text
  mhContent :: mh_html
  mhUpdated :: updated_text
  statDailyCountEl :: stat_text
  statWeeklyCountEl :: stat_text
  statLargest24hEl :: stat_text
  weekChart :: "chart option"
  timeRangeSel :: "num option"
  refreshSecondsInput :: "num option"
  autoInterval :: dbl
  autoTimerId :: "nat option"
  countdownTimerId :: "nat option"
  countdownRemaining :: dbl
  autoEnabled :: bool
  countdownEl :: countdown_text
  toggleAutoBtn :: toggle_text
  intervals :: "(nat \<times> callback \<times> dbl) list"
  lastTimerId :: nat

definition showToast :: "toast \<Rightarrow> state \<Rightarrow> state" where
  "showToast t s = s\<lparr>toasts := toasts s @ [t]\<rparr>"

section \<open>fetchQuakesAndRender\<close>

definition props_of :: "feature \<Rightarrow> props" where
  "props_of f = (case properties f of
                   None \<Rightarrow> \<lparr>mag = None, place = None, time = None, url = None\<rparr>
                 | Some p \<Rightarrow> p)"

definition coords_of :: "feature \<Rightarrow> real list" where
  "coords_of f = (case geometry f of None \<Rightarrow> []
                  | Some g \<Rightarrow> (case coordinates g of None \<Rightarrow> [] | Some c \<Rightarrow> c))"

definition mag_of :: "feature \<Rightarrow> real" where
  "mag_of f = (case mag (props_of f) of None \<Rightarrow> 0 | Some m \<Rightarrow> m)"

definition depth_of :: "real list \<Rightarrow> real option" where
  "depth_of c = (if length c \<ge> 3 then Some (c ! 2) else None)"

definition focus_of :: "real list \<Rightarrow> (real \<times> real) option" where
  "focus_of c = (if length c \<ge> 2 then Some (c ! 1, c ! 0) else None)"

definition card_of :: "int \<Rightarrow> feature \<Rightarrow> card" where
  "card_of now f =
     \<lparr>card_id = id_f f,
      card_class = magClass (mag_of f),
      card_mag = mag_of f,
      card_place = or_str (place (props_of f)) ''Unknown location'',
      card_time = or_time (time (props_of f)) now,
      card_focus = focus_of (coords_of f)\<rparr>"

definition marker_of :: "int \<Rightarrow> feature \<Rightarrow> marker option" where
  "marker_of now f =
     (let c = coords_of f in
      if length c \<ge> 2 then
        Some \<lparr>lat = c ! 1, lon = c ! 0,
              radius = max 4 (4 + or_zero (mag_of f)),
              color = magColor (or_zero (mag_of f)),
              popup_mag = mag_of f,
              popup_place = or_str (place (props_of f)) ''Unknown location'',
              popup_time = or_time (time (props_of f)) now,
              popup_depth = depth_of c,
              popup_url = or_str (url (props_of f)) ''#''\<rparr>
      else None)"

definition appendChild :: "card \<Rightarrow> list_html \<Rightarrow> list_html" where
  "appendChild c l = (case l of ListCards cs \<Rightarrow> ListCards (cs @ [c]) | _ \<Rightarrow> ListCards [c])"

text \<open>The body of the \<open>forEach\<close> over the features; \<open>now\<close> is \<open>Date.now()\<close>.\<close>

definition render_feature :: "int \<Rightarrow> feature \<Rightarrow> state \<Rightarrow> state" where
  "render_feature now f s =
     (let s1 = s\<lparr>quakeListEl := appendChild (card_of now f) (quakeListEl s)\<rparr>;
          s2 = (case marker_of now f of None \<Rightarrow> s1
                | Some m \<Rightarrow> s1\<lparr>quakeLayer := quakeLayer s1 @ [m]\<rparr>)
      in if id_f f \<notin> seenQuakes s2 then
           (let s3 = s2\<lparr>seenQuakes := insert (id_f f) (seenQuakes s2)\<rparr>
            in if now - or_time (time (props_of f)) now < 60 * 60 * 1000 then
                 showToast \<lparr>about = id_f f, title = ''New Quake'', toast_mag = mag_of f,
                   toast_place = Some (or_str (place (props_of f)) ''Unknown location''),
                   duration = 5000\<rparr> s3
               else s3)
         else s2)"

text \<open>
  A promise settles as fulfilled or as rejected; the state is what the function has
  written by then (a throw undoes nothing).
\<close>

datatype outcome = Fulfilled | Rejected error

definition number_or :: "num option \<Rightarrow> real \<Rightarrow> num" where
  "number_or v dflt = (case v of None \<Rightarrow> Num dflt | Some n \<Rightarrow> n)"

definition days_before :: "int \<Rightarrow> num \<Rightarrow> num" where
  "days_before now d = (case d of NaN \<Rightarrow> NaN
                        | Num r \<Rightarrow> Num (real_of_int now - r * 24 * 60 * 60 * 1000)
                        | Infinity \<Rightarrow> MinusInfinity
                        | MinusInfinity \<Rightarrow> Infinity)"

definition fetch_error :: "state \<Rightarrow> state" where
  "fetch_error s = s\<lparr>lastUpdatedEl := UpdError, quakeListEl := ListError\<rparr>"

text \<open>
  \<open>fetch\<close> is the remote feed, \<open>now0\<close> the clock when the function is called and
  \<open>now1\<close> the clock when the response is processed.  The start time is computed
  before the \<open>try\<close>, so a RangeError there rejects the promise.
\<close>

text \<open>\<open>!data.features || data.features.length === 0\<close>\<close>

definition no_features :: "feature list option \<Rightarrow> bool" where
  "no_features fs = (fs = None \<or> fs = Some [])"

definition list_start :: "int \<Rightarrow> state \<Rightarrow> error + string" where
  "list_start now0 s = toISOString (new_Date (days_before now0 (number_or (timeRangeSel s) 7)))"

definition list_url :: "string \<Rightarrow> (string \<times> param) list" where
  "list_url start =
     buildUSGSUrl (url_defaults\<lparr>startTimeISO := Some start, orderby := ''time'',
       limit := 500, bbox := PH_BBOX\<rparr>)"

definition fetchQuakesAndRender ::
  "((string \<times> param) list \<Rightarrow> fetch_result) \<Rightarrow> int \<Rightarrow> int \<Rightarrow> state \<Rightarrow> outcome \<times> state" where
  "fetchQuakesAndRender fetch now0 now1 s =
     (case list_start now0 s of
        Inl e \<Rightarrow> (Rejected e, s)
      | Inr start \<Rightarrow>
         (let u = list_url start;
              s1 = s\<lparr>quakeListEl := ListLoading, requests := requests s @ [u]\<rparr>
          in (Fulfilled,
              (case fetch u of
                 FetchRejected \<Rightarrow> fetch_error s1
               | Response ok b \<Rightarrow>
                   if \<not> ok then fetch_error s1
                   else (case b of
                      Malformed \<Rightarrow> fetch_error s1
                    | JsonNull \<Rightarrow>
                        fetch_error (s1\<lparr>lastUpdatedEl := Updated now1,
                           quakeListEl := ListCards [], quakeLayer := []\<rparr>)
                    | Data fs \<Rightarrow>
                        (let s2 = s1\<lparr>lastUpdatedEl := Updated now1,
                                     quakeListEl := ListCards [], quakeLayer := []\<rparr>
                         in if no_features fs then s2\<lparr>quakeListEl := ListNoRecent\<rparr>
                            else fold (render_feature now1) (the fs) s2))))))"

section \<open>updateMajorHighlight\<close>

definition highlight_of :: "int \<Rightarrow> feature \<Rightarrow> highlight" where
  "highlight_of now top_f =
     \<lparr>hl_id = id_f top_f,
      hl_mag = mag_of top_f,
      hl_place = or_str (place (props_of top_f)) ''Unknown place'',
      hl_time = or_time (time (props_of top_f)) now,
      hl_depth = depth_of (coords_of top_f),
      hl_url = or_str (url (props_of top_f)) ''#'',
      hl_focus = focus_of (coords_of top_f)\<rparr>"

definition major_marker :: "int \<Rightarrow> feature \<Rightarrow> marker option" where
  "major_marker now top_f =
     (let c = coords_of top_f in
      if length c \<ge> 2 then
        Some \<lparr>lat = c ! 1, lon = c ! 0,
              radius = 10 + or_zero (mag_of top_f),
              color = (if mag_of top_f \<ge> 6 then ''#ff6b6b'' else ''#ff8a65''),
              popup_mag = mag_of top_f,
              popup_place = or_str (place (props_of top_f)) ''Unknown place'',
              popup_time = or_time (time (props_of top_f)) now,
              popup_depth = depth_of c,
              popup_url = or_str (url (props_of top_f)) ''#''\<rparr>
      else None)"

definition major_error :: "int \<Rightarrow> state \<Rightarrow> state" where
  "major_error now s = s\<lparr>mhContent := MhUnable, mhUpdated := UpdErrorAt now\<rparr>"

text \<open>
  The part after the (possibly repeated) query: \<open>fs\<close> is \<open>data.features\<close> of the
  response that is kept.
\<close>

definition render_highlight :: "int \<Rightarrow> feature list option \<Rightarrow> state \<Rightarrow> state" where
  "render_highlight now fs s =
     (if no_features fs then s\<lparr>mhContent := MhNoMajor, mhUpdated := Checked now\<rparr>
      else
        (let top_f = hd (the fs);
             s1 = s\<lparr>mhContent := MhHighlight (highlight_of now top_f), mhUpdated := Updated now\<rparr>;
             s2 = (case major_marker now top_f of None \<Rightarrow> s1
                   | Some m \<Rightarrow> s1\<lparr>majorMarkers := majorMarkers s1 @ [m]\<rparr>)
         in s2\<lparr>seenQuakes := insert (id_f top_f) (seenQuakes s2)\<rparr>))"

definition major_url :: "string \<Rightarrow> nat \<Rightarrow> (string \<times> param) list" where
  "major_url start cap =
     buildUSGSUrl (url_defaults\<lparr>startTimeISO := Some start, orderby := ''time'', limit := cap,
       minmag := Some 5.0, bbox := PH_BBOX\<rparr>)"

definition updateMajorHighlight ::
  "((string \<times> param) list \<Rightarrow> fetch_result) \<Rightarrow> int \<Rightarrow> int \<Rightarrow> state \<Rightarrow> outcome \<times> state" where
  "updateMajorHighlight fetch now0 now1 s =
     (case toISOString (timeClip (now0 - 7 * 24 * 60 * 60 * 1000)) of
        Inl e \<Rightarrow> (Rejected e, s)
      | Inr start7 \<Rightarrow>
     (case toISOString (timeClip (now0 - 30 * 24 * 60 * 60 * 1000)) of
        Inl e \<Rightarrow> (Rejected e, s)
      | Inr start30 \<Rightarrow>
         (let url7 = major_url start7 50;
              url30 = major_url start30 200;
              s1 = s\<lparr>mhContent := MhChecking, mhUpdated := UpdBlank,
                     requests := requests s @ [url7]\<rparr>
          in (Fulfilled,
              (case fetch url7 of
                 FetchRejected \<Rightarrow> major_error now1 s1
               | Response ok b \<Rightarrow>
                   if \<not> ok then major_error now1 s1
                   else (case b of
                      Malformed \<Rightarrow> major_error now1 s1
                    | JsonNull \<Rightarrow> major_error now1 s1
                    | Data fs \<Rightarrow>
                        if no_features fs then
                          (let s2 = s1\<lparr>requests := requests s1 @ [url30]\<rparr>
                           in case fetch url30 of
                                FetchRejected \<Rightarrow> major_error now1 s2
                              | Response ok30 b30 \<Rightarrow>
                                  (case b30 of
                                     Malformed \<Rightarrow> major_error now1 s2
                                   | JsonNull \<Rightarrow> major_error now1 s2
                                   | Data fs30 \<Rightarrow> render_highlight now1 fs30 s2))
                        else render_highlight now1 fs s1))))))"

section \<open>updateStatistics\<close>

record largest =
  l_mag :: real
  l_place :: "string option"
  l_time :: "int option"
  l_id :: string
  l_url :: "string option"

definition time_of :: "feature \<Rightarrow> int option" where
  "time_of f = (case properties f of None \<Rightarrow> None | Some p \<Rightarrow> time p)"

definition in_past24 :: "int \<Rightarrow> feature \<Rightarrow> bool" where
  "in_past24 past24Cutoff f = (truthy_time (time_of f) \<and> the (time_of f) \<ge> past24Cutoff)"

text \<open>One iteration of the scan for the largest event of the last 24 hours.\<close>

definition largest_step :: "feature \<Rightarrow> largest option \<Rightarrow> largest option" where
  "largest_step f largest24 =
     (case properties f of
        None \<Rightarrow> largest24
      | Some p \<Rightarrow>
          (case mag p of
             None \<Rightarrow> largest24
           | Some m \<Rightarrow>
               if largest24 = None \<or> m > l_mag (the largest24) then
                 Some \<lparr>l_mag = m, l_place = place p, l_time = time p, l_id = id_f f, l_url = url p\<rparr>
               else largest24))"

definition largest_of :: "feature list \<Rightarrow> largest option" where
  "largest_of features24 = fold largest_step features24 None"

text \<open>
  The host's time zone: \<open>tz t True\<close> is the offset of local time from UTC at the UTC
  instant \<open>t\<close>, \<open>tz t False\<close> the offset at the local time \<open>t\<close> (ECMAScript's
  LocalTZA).  \<open>d.setDate(d.getDate() - i)\<close> moves the local time back by \<open>i\<close> days
  and converts back to UTC.
\<close>

type_synonym tz = "int \<Rightarrow> bool \<Rightarrow> int"

definition setDate_back :: "tz \<Rightarrow> int \<Rightarrow> nat \<Rightarrow> int option" where
  "setDate_back z now i =
     (let local = now + z now True;
          newDate = local - int i * msPerDay
      in timeClip (newDate - z newDate False))"

definition day_key :: "int option \<Rightarrow> error + string" where
  "day_key d = (case toISOString d of Inl e \<Rightarrow> Inl e | Inr str \<Rightarrow> Inr (take 10 str))"

text \<open>
  \<open>buckets\<close> is an object with string keys: an association list in insertion order,
  where assigning to a key that is present keeps its position.
\<close>

type_synonym buckets = "(string \<times> nat) list"

fun build_buckets :: "tz \<Rightarrow> int \<Rightarrow> nat list \<Rightarrow> buckets \<Rightarrow> error + buckets" where
  "build_buckets z now [] b = Inr b"
| "build_buckets z now (i # js) b =
     (case day_key (setDate_back z now i) of
        Inl e \<Rightarrow> Inl e
      | Inr key \<Rightarrow> build_buckets z now js (AList.update key 0 b))"

definition bump :: "string \<Rightarrow> buckets \<Rightarrow> buckets" where
  "bump key b = (case map_of b key of None \<Rightarrow> b | Some c \<Rightarrow> AList.update key (c + 1) b)"

fun count_features :: "feature list \<Rightarrow> buckets \<Rightarrow> error + buckets" where
  "count_features [] b = Inr b"
| "count_features (f # fs) b =
     (if \<not> truthy_time (time_of f) then count_features fs b
      else (case day_key (timeClip (the (time_of f))) of
              Inl e \<Rightarrow> Inl e
            | Inr key \<Rightarrow> count_features fs (bump key b)))"

definition daily_buckets :: "tz \<Rightarrow> int \<Rightarrow> feature list \<Rightarrow> error + buckets" where
  "daily_buckets z now features =
     (case build_buckets z now [6, 5, 4, 3, 2, 1, 0] [] of
        Inl e \<Rightarrow> Inl e
      | Inr b \<Rightarrow> count_features features b)"

definition chart_of :: "buckets \<Rightarrow> chart" where
  "chart_of b =
     \<lparr>labels = map fst b,
      counts = map snd b,
      backgroundColor =
        map (\<lambda>c. if c > 0 then ''rgba(124,77,255,0.7)'' else ''rgba(255,255,255,0.04)'') (map snd b)\<rparr>"

definition stats_error :: "state \<Rightarrow> state" where
  "stats_error s = s\<lparr>statDailyCountEl := StatDash, statWeeklyCountEl := StatDash,
     statLargest24hEl := StatDash\<rparr>"

definition major24_toast :: "largest option \<Rightarrow> state \<Rightarrow> state" where
  "major24_toast largest24 s =
     (case largest24 of
        None \<Rightarrow> s
      | Some l \<Rightarrow>
          if l_mag l \<ge> 5.0 \<and> l_id l \<notin> seenQuakes s then
            (showToast \<lparr>about = l_id l, title = ''Major (24h)'', toast_mag = l_mag l,
               toast_place = l_place l, duration = 8000\<rparr> s)
            \<lparr>seenQuakes := insert (l_id l) (seenQuakes s)\<rparr>
          else s)"

text \<open>The events of the last 24 hours: \<open>now\<close> is \<open>Date.now()\<close> after the response.\<close>

definition features24_of :: "int \<Rightarrow> feature list \<Rightarrow> feature list" where
  "features24_of now features = filter (in_past24 (now - 24 * 60 * 60 * 1000)) features"

text \<open>The statistics of a parsed response: everything after \<open>res.json()\<close>.\<close>

definition render_statistics :: "tz \<Rightarrow> int \<Rightarrow> feature list \<Rightarrow> state \<Rightarrow> state" where
  "render_statistics z now features s =
     (let features24 = features24_of now features;
          largest24 = largest_of features24;
          s1 = s\<lparr>statDailyCountEl := StatCount (length features24),
                 statWeeklyCountEl := StatCount (length features),
                 statLargest24hEl := (case largest24 of None \<Rightarrow> StatDash
                                      | Some l \<Rightarrow> StatMag (l_mag l))\<rparr>;
          s2 = major24_toast largest24 s1
      in case daily_buckets z now features of
           Inl e \<Rightarrow> stats_error s2
         | Inr b \<Rightarrow> s2\<lparr>weekChart := Some (chart_of b)\<rparr>)"

definition stats_url :: "string \<Rightarrow> (string \<times> param) list" where
  "stats_url start =
     buildUSGSUrl (url_defaults\<lparr>startTimeISO := Some start, orderby := ''time'',
       limit := 2000, bbox := PH_BBOX\<rparr>)"

definition updateStatistics ::
  "tz \<Rightarrow> ((string \<times> param) list \<Rightarrow> fetch_result) \<Rightarrow> int \<Rightarrow> int \<Rightarrow> state \<Rightarrow> outcome \<times> state" where
  "updateStatistics z fetch now0 now1 s =
     (Fulfilled,
      (case toISOString (timeClip (now0 - 7 * 24 * 60 * 60 * 1000)) of
         Inl e \<Rightarrow> stats_error s
       | Inr start7 \<Rightarrow>
          (let u = stats_url start7;
               s1 = s\<lparr>requests := requests s @ [u]\<rparr>
           in case fetch u of
                FetchRejected \<Rightarrow> stats_error s1
              | Response ok b \<Rightarrow>
                  if \<not> ok then stats_error s1
                  else (case b of
                     Malformed \<Rightarrow> stats_error s1
                   | JsonNull \<Rightarrow> stats_error s1
                   | Data fs \<Rightarrow>
                       render_statistics z now1 (case fs of None \<Rightarrow> [] | Some l \<Rightarrow> l) s1))))"

section \<open>doFullRefresh\<close>

text \<open>
  \<open>Promise.all\<close> rejects with the first rejection and is fulfilled when every promise
  is; a rejected promise does not stop the others.  The three functions are started one
  after the other and each processes its response in one uninterrupted step.
\<close>

fun promise_all :: "outcome list \<Rightarrow> outcome" where
  "promise_all [] = Fulfilled"
| "promise_all (Fulfilled # os) = promise_all os"
| "promise_all (Rejected e # os) = Rejected e"

record clock =
  t_call :: int
  t_list :: int
  t_major :: int
  t_stats :: int

definition doFullRefresh ::
  "tz \<Rightarrow> ((string \<times> param) list \<Rightarrow> fetch_result) \<Rightarrow> clock \<Rightarrow> state \<Rightarrow> outcome \<times> state" where
  "doFullRefresh z fetch c s =
     (let (o1, s1) = fetchQuakesAndRender fetch (t_call c) (t_list c) s;
          (o2, s2) = updateMajorHighlight fetch (t_call c) (t_major c) s1;
          (o3, s3) = updateStatistics z fetch (t_call c) (t_stats c) s2
      in (promise_all [o1, o2, o3], s3))"

section \<open>Auto-refresh and countdown\<close>

text \<open>
  \<open>setInterval\<close> returns a fresh identifier greater than zero and enters the timer in
  the table; \<open>clearInterval\<close> removes it.
\<close>

definition setInterval :: "callback \<Rightarrow> dbl \<Rightarrow> state \<Rightarrow> nat \<times> state" where
  "setInterval cb delay s =
     (let i = Suc (lastTimerId s)
      in (i, s\<lparr>intervals := intervals s @ [(i, cb, delay)], lastTimerId := i\<rparr>))"

definition clearInterval :: "nat \<Rightarrow> state \<Rightarrow> state" where
  "clearInterval i s = s\<lparr>intervals := filter (\<lambda>t. fst t \<noteq> i) (intervals s)\<rparr>"

definition truthy_id :: "nat option \<Rightarrow> bool" where
  "truthy_id i = (case i of None \<Rightarrow> False | Some n \<Rightarrow> n \<noteq> 0)"

definition stopAuto :: "state \<Rightarrow> state" where
  "stopAuto s =
     (let s1 = (if truthy_id (autoTimerId s)
                then (clearInterval (the (autoTimerId s)) s)\<lparr>autoTimerId := None\<rparr> else s)
      in if truthy_id (countdownTimerId s1)
         then (clearInterval (the (countdownTimerId s1)) s1)\<lparr>countdownTimerId := None\<rparr> else s1)"

text \<open>\<open>(!isNaN(secs) && secs >= 5) ? secs : 30\<close>\<close>

definition validatedSecs :: "num \<Rightarrow> num" where
  "validatedSecs secs = (case secs of Num r \<Rightarrow> if r \<ge> 5 then Num r else Num 30
                          | Infinity \<Rightarrow> Infinity
                          | _ \<Rightarrow> Num 30)"

definition toggle_label :: "bool \<Rightarrow> toggle_text" where
  "toggle_label enabled = (if enabled then TgPause else TgResume)"

definition startAuto :: "state \<Rightarrow> state" where
  "startAuto s =
     (let s1 = stopAuto s;
          secs = number_or (refreshSecondsInput s1) 30;
          interval = max5000 (times1000 (floor_num (validatedSecs secs)));
          s2 = s1\<lparr>autoInterval := interval, countdownRemaining := floor_div1000 interval,
                 toggleAutoBtn := toggle_label (autoEnabled s1)\<rparr>
      in if \<not> autoEnabled s2 then s2\<lparr>countdownEl := CdPaused\<rparr>
         else
           (let (a, s3) = setInterval CycleTimer (autoInterval s2) s2;
                s4 = s3\<lparr>autoTimerId := Some a, countdownEl := CdSeconds (countdownRemaining s3)\<rparr>;
                (c, s5) = setInterval CountdownTick (Finite 1000) s4
            in s5\<lparr>countdownTimerId := Some c\<rparr>))"

text \<open>The callback of the one-second timer.\<close>

definition countdown_tick :: "state \<Rightarrow> state" where
  "countdown_tick s =
     (let r = minus1 (countdownRemaining s);
          r' = (if le_zero r then floor_div1000 (autoInterval s) else r)
      in s\<lparr>countdownRemaining := r', countdownEl := CdSeconds r'\<rparr>)"

text \<open>
  The callback of the cycle timer: it starts a refresh, whose rejection it would log,
  and resets the countdown.
\<close>

definition cycle_tick ::
  "tz \<Rightarrow> ((string \<times> param) list \<Rightarrow> fetch_result) \<Rightarrow> clock \<Rightarrow> state \<Rightarrow> state" where
  "cycle_tick z fetch c s =
     (let s1 = snd (doFullRefresh z fetch c s)
      in s1\<lparr>countdownRemaining := floor_div1000 (autoInterval s1)\<rparr>)"

text \<open>The click handler of the toggle button.\<close>

definition toggle_click :: "state \<Rightarrow> state" where
  "toggle_click s =
     (let s1 = s\<lparr>autoEnabled := \<not> autoEnabled s\<rparr>
      in startAuto (s1\<lparr>toggleAutoBtn := toggle_label (autoEnabled s1)\<rparr>))"

text \<open>
  The change handler of the interval input, run after the user has set the input to
  \<open>v\<close>; the handler is registered only when the input exists.
\<close>

definition invalid_secs :: "num \<Rightarrow> bool" where
  "invalid_secs v = (case v of NaN \<Rightarrow> True | Num r \<Rightarrow> r < 5
                     | Infinity \<Rightarrow> False | MinusInfinity \<Rightarrow> True)"

definition seconds_change :: "num \<Rightarrow> state \<Rightarrow> state" where
  "seconds_change v s =
     (if refreshSecondsInput s = None then s
      else startAuto (s\<lparr>refreshSecondsInput := Some (if invalid_secs v then Num 30 else v)\<rparr>))"

text \<open>
  What can happen to the page once it is loaded: a timer of the table fires, the user
  acts on a control (the toggle, the interval input, the refresh button, the time-range
  selector), or \<open>init\<close> reaches its call of \<open>startAuto\<close>.  An event that starts a
  refresh carries the feed and the clock readings of that refresh.
\<close>

datatype event =
    TimerFires nat tz "(string \<times> param) list \<Rightarrow> fetch_result" clock
  | ToggleClick
  | SecondsChange num
  | RefreshClick tz "(string \<times> param) list \<Rightarrow> fetch_result" clock
  | TimeRangeChange num tz "(string \<times> param) list \<Rightarrow> fetch_result" clock
  | InitStartAuto

definition fire :: "nat \<Rightarrow> tz \<Rightarrow> ((string \<times> param) list \<Rightarrow> fetch_result) \<Rightarrow> clock \<Rightarrow> state \<Rightarrow> state" where
  "fire i z fetch c s =
     (case map_of (intervals s) i of
        None \<Rightarrow> s
      | Some (CycleTimer, d) \<Rightarrow> cycle_tick z fetch c s
      | Some (CountdownTick, d) \<Rightarrow> countdown_tick s)"

fun step :: "event \<Rightarrow> state \<Rightarrow> state" where
  "step (TimerFires i z fetch c) s = fire i z fetch c s"
| "step ToggleClick s = toggle_click s"
| "step (SecondsChange v) s = seconds_change v s"
| "step (RefreshClick z fetch c) s = snd (doFullRefresh z fetch c s)"
| "step (TimeRangeChange v z fetch c) s =
     (if timeRangeSel s = None then s
      else snd (updateStatistics z fetch (t_call c) (t_stats c)
             (snd (fetchQuakesAndRender fetch (t_call c) (t_list c) (s\<lparr>timeRangeSel := Some v\<rparr>)))))"
| "step InitStartAuto s = startAuto s"

definition run :: "event list \<Rightarrow> state \<Rightarrow> state" where
  "run es s = fold step es s"

section \<open>The top level of the script\<close>

text \<open>
  The statements of the script outside any function, in source order.  All top-level
  \<open>const\<close> and \<open>let\<close> bindings exist from the start, uninitialised, and reading one
  before its declaration has run is a ReferenceError, as is reading a name that nothing
  declares; function declarations are initialised from the start.  The page decides
  which elements \<open>getElementById\<close> finds, whether building the map throws
  (\<open>map_error\<close>), and whether something outside the script defines a global \<open>data\<close>
  (\<open>data_features\<close>: \<open>None\<close> when nothing does, else whether it has a list of
  features with places).
\<close>

record page =
  element :: "string \<Rightarrow> bool"
  map_error :: "error option"
  data_features :: "bool option"

record script =
  initialized :: "string set"
  listeners :: "(string \<times> string) list"
  init_started :: bool
  table_cleared :: bool
  table_rendered :: bool
  calls :: "string list"

definition function_names :: "string list" where
  "function_names = [''buildUSGSUrl'', ''niceTime'', ''magClass'', ''magColor'', ''showToast'',
     ''focusMap'', ''fetchQuakesAndRender'', ''updateMajorHighlight'', ''updateStatistics'',
     ''doFullRefresh'', ''stopAuto'', ''startAuto'', ''testUSGS'', ''loadWeather'']"

definition instantiate :: script where
  "instantiate = \<lparr>initialized = set function_names, listeners = [], init_started = False,
     table_cleared = False, table_rendered = False, calls = []\<rparr>"

definition declare_all :: "string list \<Rightarrow> script \<Rightarrow> error + script" where
  "declare_all names sc = Inr (sc\<lparr>initialized := initialized sc \<union> set names\<rparr>)"

definition read_var :: "string \<Rightarrow> script \<Rightarrow> error + script" where
  "read_var name sc = (if name \<in> initialized sc then Inr sc else Inl ReferenceError)"

definition call_fn :: "string \<Rightarrow> script \<Rightarrow> error + script" where
  "call_fn name sc =
     (case read_var name sc of Inl e \<Rightarrow> Inl e | Inr sc1 \<Rightarrow> Inr (sc1\<lparr>calls := calls sc1 @ [name]\<rparr>))"

text \<open>\<open>el?.addEventListener(ev, ...)\<close>\<close>

definition add_listener :: "page \<Rightarrow> string \<Rightarrow> string \<Rightarrow> string \<Rightarrow> script \<Rightarrow> error + script" where
  "add_listener pg var el ev sc =
     (case read_var var sc of
        Inl e \<Rightarrow> Inl e
      | Inr sc1 \<Rightarrow>
          Inr (sc1\<lparr>listeners := listeners sc1 @ (if element pg el then [(el, ev)] else [])\<rparr>))"

text \<open>Lines 13 to 65: the element lookups, the map and the state variables.\<close>

definition lines_13_30 :: "page \<Rightarrow> script \<Rightarrow> error + script" where
  "lines_13_30 pg = declare_all [''quakeListEl'', ''lastUpdatedEl'', ''timeRangeSel'', ''refreshBtn'',
     ''toastContainer'', ''mhContent'', ''mhUpdated'', ''refreshSecondsInput'', ''toggleAutoBtn'',
     ''countdownEl'', ''statDailyCountEl'', ''statWeeklyCountEl'', ''statLargest24hEl'',
     ''weekChartCanvasEl'', ''weekChartCanvas'', ''PH_BBOX'']"

definition lines_43_51 :: "page \<Rightarrow> script \<Rightarrow> error + script" where
  "lines_43_51 pg sc =
     (case map_error pg of
        Some e \<Rightarrow> Inl e
      | None \<Rightarrow> declare_all [''map'', ''quakeLayer'', ''seenQuakes''] sc)"

definition lines_56_65 :: "page \<Rightarrow> script \<Rightarrow> error + script" where
  "lines_56_65 pg sc =
     (case read_var ''refreshSecondsInput'' sc of
        Inl e \<Rightarrow> Inl e
      | Inr sc1 \<Rightarrow> declare_all [''autoInterval'', ''autoTimerId'', ''countdownTimerId'',
          ''countdownRemaining'', ''autoEnabled'', ''weekChart''] sc1)"

text \<open>Line 472: the call of \<open>init\<close>, which runs up to its first \<open>await\<close>.\<close>

definition line_472 :: "page \<Rightarrow> script \<Rightarrow> error + script" where
  "line_472 pg sc = Inr (sc\<lparr>init_started := True\<rparr>)"

definition line_482 :: "page \<Rightarrow> script \<Rightarrow> error + script" where
  "line_482 pg = declare_all [''tableBody'']"

definition line_483 :: "page \<Rightarrow> script \<Rightarrow> error + script" where
  "line_483 pg sc =
     (case read_var ''tableBody'' sc of
        Inl e \<Rightarrow> Inl e
      | Inr sc1 \<Rightarrow> if element pg ''quake-table-body'' then Inr (sc1\<lparr>table_cleared := True\<rparr>)
                   else Inl TypeError)"

definition lines_485_501 :: "page \<Rightarrow> script \<Rightarrow> error + script" where
  "lines_485_501 pg sc =
     (case read_var ''quakes'' sc of
        Inl e \<Rightarrow> Inl e
      | Inr sc1 \<Rightarrow> Inr (sc1\<lparr>table_rendered := True\<rparr>))"

definition line_502 :: "page \<Rightarrow> script \<Rightarrow> error + script" where
  "line_502 pg sc =
     (case data_features pg of
        None \<Rightarrow> Inl ReferenceError
      | Some False \<Rightarrow> Inl TypeError
      | Some True \<Rightarrow> declare_all [''quakes''] sc)"

text \<open>Lines 13 to 480: the initialisation, up to the call of \<open>init\<close>.\<close>

definition initialization :: "(page \<Rightarrow> script \<Rightarrow> error + script) list" where
  "initialization =
     [lines_13_30, lines_43_51, lines_56_65,
      (\<lambda>pg. add_listener pg ''timeRangeSel'' ''timeRange'' ''change''),
      (\<lambda>pg. add_listener pg ''refreshBtn'' ''refreshBtn'' ''click''),
      (\<lambda>pg. add_listener pg ''toggleAutoBtn'' ''toggleAuto'' ''click''),
      (\<lambda>pg. add_listener pg ''refreshSecondsInput'' ''refreshSeconds'' ''change''),
      line_472]"

text \<open>Lines 482 to 547: the statements that follow the initialisation.\<close>

definition after_init :: "(page \<Rightarrow> script \<Rightarrow> error + script) list" where
  "after_init =
     [line_482, line_483, lines_485_501, line_502,
      (\<lambda>pg. call_fn ''loadWeather''),
      (\<lambda>pg. call_fn ''testUSGS'')]"

definition top_level :: "(page \<Rightarrow> script \<Rightarrow> error + script) list" where
  "top_level = initialization @ after_init"

text \<open>
  Statements run in order; the first that throws ends the evaluation of the script with
  that error, and what ran before stays done.
\<close>

fun exec :: "page \<Rightarrow> (page \<Rightarrow> script \<Rightarrow> error + script) list \<Rightarrow> script \<Rightarrow> outcome \<times> script" where
  "exec pg [] sc = (Fulfilled, sc)"
| "exec pg (st # sts) sc =
     (case st pg sc of Inl e \<Rightarrow> (Rejected e, sc) | Inr sc1 \<Rightarrow> exec pg sts sc1)"

definition run_script :: "page \<Rightarrow> outcome \<times> script" where
  "run_script pg = exec pg top_level instantiate"

text \<open>The listeners the initialisation registers: one per control that the page has.\<close>

definition present_listeners :: "page \<Rightarrow> (string \<times> string) list" where
  "present_listeners pg =
     filter (\<lambda>l. element pg (fst l))
       [(''timeRange'', ''change''), (''refreshBtn'', ''click''), (''toggleAuto'', ''click''),
        (''refreshSeconds'', ''change'')]"

section \<open>Sequences of refresh operations\<close>

text \<open>
  Each of the three functions reads and writes \<open>seenQuakes\<close> only in the step that
  processes its response, and such steps do not interleave.  Whatever refresh cycles
  run, by the timer, the button or the time-range selector, and however their responses
  arrive, the page therefore sees a sequence of these operations.
\<close>

datatype operation =
    ListOp "(string \<times> param) list \<Rightarrow> fetch_result" int int
  | MajorOp "(string \<times> param) list \<Rightarrow> fetch_result" int int
  | StatsOp tz "(string \<times> param) list \<Rightarrow> fetch_result" int int

fun perform :: "operation \<Rightarrow> state \<Rightarrow> state" where
  "perform (ListOp fetch now0 now1) s = snd (fetchQuakesAndRender fetch now0 now1 s)"
| "perform (MajorOp fetch now0 now1) s = snd (updateMajorHighlight fetch now0 now1 s)"
| "perform (StatsOp z fetch now0 now1) s = snd (updateStatistics z fetch now0 now1 s)"

definition perform_all :: "operation list \<Rightarrow> state \<Rightarrow> state" where
  "perform_all ops s = fold perform ops s"

text \<open>
  \<open>extends s s'\<close>: from \<open>s\<close> to \<open>s'\<close> the seen set has only grown, and the
  notifications shown in between are about pairwise different events, none of which was
  in the seen set of \<open>s\<close> and all of which are in the seen set of \<open>s'\<close>.
\<close>

definition extends :: "state \<Rightarrow> state \<Rightarrow> bool" where
  "extends s s' \<longleftrightarrow>
     seenQuakes s \<subseteq> seenQuakes s' \<and>
     (\<exists>new. toasts s' = toasts s @ new \<and> distinct (map about new) \<and>
        (\<forall>t \<in> set new. about t \<notin> seenQuakes s \<and> about t \<in> seenQuakes s'))"

section \<open>Reading the statistics\<close>

text \<open>The magnitude of an event as the scan reads it: \<open>f.properties && f.properties.mag\<close>.\<close>

definition mag_at :: "feature \<Rightarrow> real option" where
  "mag_at f = (case properties f of None \<Rightarrow> None | Some p \<Rightarrow> mag p)"

text \<open>\<open>built_from l f\<close>: the record \<open>l\<close> is the one the scan builds from the event \<open>f\<close>.\<close>

definition built_from :: "largest \<Rightarrow> feature \<Rightarrow> bool" where
  "built_from l f \<longleftrightarrow> (case properties f of None \<Rightarrow> False
     | Some p \<Rightarrow> mag p = Some (l_mag l) \<and> l_place l = place p \<and> l_time l = time p
         \<and> l_id l = id_f f \<and> l_url l = url p)"

text \<open>
  \<open>first_max xs i m\<close>: the event at position \<open>i\<close> has magnitude \<open>m\<close>, no event of
  \<open>xs\<close> has a larger one, and every event before position \<open>i\<close> that has a magnitude
  has a smaller one.
\<close>

definition first_max :: "feature list \<Rightarrow> nat \<Rightarrow> real \<Rightarrow> bool" where
  "first_max xs i m \<longleftrightarrow> i < length xs \<and> mag_at (xs ! i) = Some m
     \<and> (\<forall>j < length xs. \<forall>m'. mag_at (xs ! j) = Some m' \<longrightarrow> m' \<le> m)
     \<and> (\<forall>j < i. \<forall>m'. mag_at (xs ! j) = Some m' \<longrightarrow> m' < m)"

text \<open>
  The key of an event's day as the script computes it, \<open>toISOString().slice(0, 10)\<close>:
  the date in UTC.  \<open>counted fs k\<close> is the number of events of \<open>fs\<close> that have a
  timestamp and whose key is \<open>k\<close>.
\<close>

definition utc_key :: "int \<Rightarrow> string" where
  "utc_key t = take 10 (isoString t)"

definition counted :: "feature list \<Rightarrow> string \<Rightarrow> nat" where
  "counted fs k = length (filter (\<lambda>f. truthy_time (time_of f) \<and> utc_key (the (time_of f)) = k) fs)"

text \<open>
  The key of an event's day as the specification words it: the date in the region's
  local time, which in the Philippines is eight hours ahead of UTC.
\<close>

definition spec_local_day_key :: "int \<Rightarrow> string" where
  "spec_local_day_key t = take 10 (isoString (t + 8 * 3600000))"

section \<open>Regions of the page\<close>

text \<open>
  The parts of the state that belong to the timers, to the event list, to the
  highlight panel and to the statistics.
\<close>

definition timer_view ::
  "state \<Rightarrow> dbl \<times> nat option \<times> nat option \<times> dbl \<times> bool \<times> countdown_text \<times> toggle_text
     \<times> (nat \<times> callback \<times> dbl) list \<times> nat \<times> num option" where
  "timer_view s = (autoInterval s, autoTimerId s, countdownTimerId s, countdownRemaining s,
     autoEnabled s, countdownEl s, toggleAutoBtn s, intervals s, lastTimerId s,
     refreshSecondsInput s)"

definition list_view :: "state \<Rightarrow> list_html \<times> updated_text \<times> marker list" where
  "list_view s = (quakeListEl s, lastUpdatedEl s, quakeLayer s)"

definition major_view :: "state \<Rightarrow> mh_html \<times> updated_text \<times> marker list" where
  "major_view s = (mhContent s, mhUpdated s, majorMarkers s)"

definition stats_view :: "state \<Rightarrow> stat_text \<times> stat_text \<times> stat_text \<times> chart option" where
  "stats_view s = (statDailyCountEl s, statWeeklyCountEl s, statLargest24hEl s, weekChart s)"

text \<open>
  A query has failed when the request is rejected, the status is not ok, or the body
  is not JSON or is \<open>null\<close>.  The fallback query of updateMajorHighlight does not test
  the status.  \<open>first_empty\<close>: the query succeeded with no events.
\<close>

definition failed :: "fetch_result \<Rightarrow> bool" where
  "failed r = (case r of FetchRejected \<Rightarrow> True
               | Response ok b \<Rightarrow> \<not> ok \<or> b = Malformed \<or> b = JsonNull)"

definition first_empty :: "fetch_result \<Rightarrow> bool" where
  "first_empty r = (case r of FetchRejected \<Rightarrow> False
     | Response ok b \<Rightarrow> ok \<and> (case b of Data fs \<Rightarrow> no_features fs | _ \<Rightarrow> False))"


text \<open>
  A clock reading from which 7 and 30 days can be subtracted within the range of a
  Date, as every reading of a real clock is; the start times of the queries.
\<close>

definition clock_ok :: "int \<Rightarrow> bool" where
  "clock_ok now \<longleftrightarrow> \<bar>now - 7 * 24 * 60 * 60 * 1000\<bar> \<le> maxTime
     \<and> \<bar>now - 30 * 24 * 60 * 60 * 1000\<bar> \<le> maxTime"

definition start7 :: "int \<Rightarrow> string" where
  "start7 now = isoString (now - 7 * 24 * 60 * 60 * 1000)"

definition start30 :: "int \<Rightarrow> string" where
  "start30 now = isoString (now - 30 * 24 * 60 * 60 * 1000)"

section \<open>States of the auto-refresh\<close>

text \<open>
  \<open>armed\<close>: the table holds exactly the two timers the script remembers, the cycle
  timer with the current interval and the one-second tick.  \<open>idle\<close>: no timer exists.
  \<open>in_range\<close>: an integer between 1 and \<open>Math.floor(autoInterval / 1000)\<close>.
  \<open>running\<close>: enabled and armed; the interval is a double of at least 5000 with the
  remaining seconds (a double) and the displayed value in range, or the interval is
  infinite and so are both.  \<open>paused\<close>: disabled, idle, showing the paused indicator.
\<close>

definition armed :: "state \<Rightarrow> bool" where
  "armed s \<longleftrightarrow> (\<exists>a c. a \<noteq> c \<and> a \<noteq> 0 \<and> c \<noteq> 0
      \<and> autoTimerId s = Some a \<and> countdownTimerId s = Some c
      \<and> intervals s = [(a, CycleTimer, autoInterval s), (c, CountdownTick, Finite 1000)])"

definition idle :: "state \<Rightarrow> bool" where
  "idle s \<longleftrightarrow> autoTimerId s = None \<and> countdownTimerId s = None \<and> intervals s = []"

definition in_range :: "state \<Rightarrow> dbl \<Rightarrow> bool" where
  "in_range s x \<longleftrightarrow>
     (case x of
        Finite d \<Rightarrow> (case floor_div1000 (autoInterval s) of
                       Finite n \<Rightarrow> 1 \<le> d \<and> d \<le> n
                     | _ \<Rightarrow> False)
      | _ \<Rightarrow> False)"

definition running :: "state \<Rightarrow> bool" where
  "running s \<longleftrightarrow> autoEnabled s \<and> armed s
      \<and> (case autoInterval s of
            Finite a \<Rightarrow> 5000 \<le> a \<and> a < 2 ^ 1024
              \<and> (\<exists>r d. countdownRemaining s = Finite r \<and> fl_int r = Finite r
                     \<and> in_range s (Finite r)
                     \<and> countdownEl s = CdSeconds (Finite d) \<and> in_range s (Finite d))
          | PosInf \<Rightarrow> countdownRemaining s = PosInf \<and> countdownEl s = CdSeconds PosInf
          | _ \<Rightarrow> False)"

definition paused :: "state \<Rightarrow> bool" where
  "paused s \<longleftrightarrow> \<not> autoEnabled s \<and> idle s \<and> countdownEl s = CdPaused"

section \<open>Worked inputs\<close>

text \<open>
  The state after lines 50 to 65, on a page whose interval input holds 30 and whose
  time-range selector holds 7.
\<close>

definition page_load :: state where
  "page_load =
     \<lparr>seenQuakes = {}, quakeLayer = [], majorMarkers = [], toasts = [], requests = [],
      quakeListEl = ListInitial, lastUpdatedEl = UpdInitial, mhContent = MhInitial,
      mhUpdated = UpdInitial, statDailyCountEl = StatInitial, statWeeklyCountEl = StatInitial,
      statLargest24hEl = StatInitial, weekChart = None,
      timeRangeSel = Some (Num 7), refreshSecondsInput = Some (Num 30),
      autoInterval = Finite 30000, autoTimerId = None, countdownTimerId = None,
      countdownRemaining = Finite 30, autoEnabled = True, countdownEl = CdInitial,
      toggleAutoBtn = TgInitial, intervals = [], lastTimerId = 0\<rparr>"

text \<open>
  Three events: one without a magnitude off Luzon, a magnitude 5.4 and a magnitude 6.1
  event.  The clock readings are 2025-03-11T02:00:00Z and one second later.
\<close>

definition quake_a :: feature where
  "quake_a = \<lparr>properties = Some \<lparr>mag = None, place = Some ''10 km W of Laoag, Philippines'',
       time = Some 1741636800000, url = None\<rparr>,
     geometry = Some \<lparr>coordinates = Some [120.5, 18.2, 33]\<rparr>, id_f = ''us7000a''\<rparr>"

definition quake_b :: feature where
  "quake_b = \<lparr>properties = Some \<lparr>mag = Some 5.4, place = Some ''Mindanao, Philippines'',
       time = Some 1741636800000, url = None\<rparr>,
     geometry = Some \<lparr>coordinates = Some [126.1, 7.3, 60]\<rparr>, id_f = ''us7000b''\<rparr>"

definition quake_c :: feature where
  "quake_c = \<lparr>properties = Some \<lparr>mag = Some 6.1, place = Some ''Samar, Philippines'',
       time = Some 1741651200000, url = None\<rparr>,
     geometry = None, id_f = ''us7000c''\<rparr>"

definition t_now :: int where
  "t_now = 1741658400000"

definition feed_of :: "feature list \<Rightarrow> (string \<times> param) list \<Rightarrow> fetch_result" where
  "feed_of fs u = Response True (Data (Some fs))"

text \<open>The host's time zone in the Philippines: eight hours ahead of UTC all year.\<close>

definition manila :: tz where
  "manila t isUTC = 8 * 3600000"

text \<open>
  Two more events: a second one of magnitude 5.4, and a magnitude 7 event of three days
  before.
\<close>

definition quake_d :: feature where
  "quake_d = \<lparr>properties = Some \<lparr>mag = Some 5.4, place = Some ''Leyte, Philippines'',
       time = Some 1741651200000, url = None\<rparr>,
     geometry = None, id_f = ''us7000d''\<rparr>"

definition quake_e :: feature where
  "quake_e = \<lparr>properties = Some \<lparr>mag = Some 7, place = Some ''Batanes, Philippines'',
       time = Some 1741399200000, url = None\<rparr>,
     geometry = None, id_f = ''us7000e''\<rparr>"

text \<open>
  A host in New York around the start of daylight saving time on 2025-03-09: five
  hours behind UTC before 07:00 UTC (03:00 local time), four hours behind after.
\<close>

definition new_york :: tz where
  "new_york t isUTC =
     (if isUTC then (if t < 1741503600000 then - 5 * 3600000 else - 4 * 3600000)
      else (if t < 1741489200000 then - 5 * 3600000 else - 4 * 3600000))"

text \<open>A page that has every element and a working map, and no global \<open>data\<close>.\<close>

definition plain_page :: page where
  "plain_page = \<lparr>element = (\<lambda>i. True), map_error = None, data_features = None\<rparr>"

text \<open>
  A feed whose 7-day query for major events is empty and whose other queries return two
  events; a feed that is unreachable; the clock readings of one refresh.
\<close>

definition fallback_feed :: "(string \<times> param) list \<Rightarrow> fetch_result" where
  "fallback_feed u = (if u = major_url (start7 t_now) 50 then Response True (Data (Some []))
                      else Response True (Data (Some [quake_c, quake_b])))"

definition offline :: "(string \<times> param) list \<Rightarrow> fetch_result" where
  "offline u = FetchRejected"

definition clock_now :: clock where
  "clock_now = \<lparr>t_call = t_now, t_list = t_now + 1000, t_major = t_now + 1200, t_stats = t_now + 900\<rparr>"

text \<open>
  The interval input set to 5 on the loaded page, on which startAuto has run: the timers
  are then armed anew as timers 3 (the cycle) and 4 (the tick).  Two ticks, the cycle
  timer, and four more ticks bring the countdown to 1.
\<close>

definition tick_4 :: event where
  "tick_4 = TimerFires 4 manila offline clock_now"

definition cycle_3 :: event where
  "cycle_3 = TimerFires 3 manila offline clock_now"

definition count_to_one :: "event list" where
  "count_to_one = [SecondsChange (Num 5), tick_4, tick_4, cycle_3, tick_4, tick_4, tick_4, tick_4]"

section \<open>Rendering of the event list\<close>

lemma render_feature_list:
  "quakeListEl (render_feature now f s) = appendChild (card_of now f) (quakeListEl s)"
  by (simp add: render_feature_def showToast_def Let_def split: option.splits)

lemma render_feature_layer:
  "quakeLayer (render_feature now f s) =
     quakeLayer s @ (case marker_of now f of None \<Rightarrow> [] | Some m \<Rightarrow> [m])"
  by (simp add: render_feature_def showToast_def Let_def split: option.splits)

lemma in_set_map_filter: "y \<in> set (List.map_filter g xs) \<longleftrightarrow> (\<exists>x \<in> set xs. g x = Some y)"
  by (induction xs) (auto split: option.splits)

lemma fold_render_list:
  "quakeListEl s = ListCards cs \<Longrightarrow>
   quakeListEl (fold (render_feature now) fs s) = ListCards (cs @ map (card_of now) fs)"
proof (induction fs arbitrary: s cs)
  case Nil
  then show ?case by simp
next
  case (Cons f fs)
  have "quakeListEl (render_feature now f s) = ListCards (cs @ [card_of now f])"
    using Cons.prems by (simp add: render_feature_list appendChild_def)
  from Cons.IH [OF this] show ?case by simp
qed

lemma fold_render_layer:
  "quakeLayer (fold (render_feature now) fs s) = quakeLayer s @ List.map_filter (marker_of now) fs"
proof (induction fs arbitrary: s)
  case Nil
  then show ?case by (simp add: List.map_filter_simps)
next
  case (Cons f fs)
  show ?case
    by (simp add: Cons.IH render_feature_layer List.map_filter_simps split: option.splits)
qed

text \<open>A parsed, non-empty response is rendered as one card per event, in the order of
  the response, and one marker per event that has coordinates.\<close>

lemma fetchQuakes_renders:
  assumes "list_start now0 s = Inr start"
    and "fetch (list_url start) = Response True (Data (Some fs))"
    and "fs \<noteq> []"
  shows "quakeListEl (snd (fetchQuakesAndRender fetch now0 now1 s)) = ListCards (map (card_of now1) fs)"
    and "quakeLayer (snd (fetchQuakesAndRender fetch now0 now1 s)) = List.map_filter (marker_of now1) fs"
  using assms
  by (simp_all add: fetchQuakesAndRender_def Let_def no_features_def fold_render_list fold_render_layer)

lemma card_of_null_mag:
  "mag (props_of f) = None \<Longrightarrow>
   card_mag (card_of now f) = 0 \<and> card_class (card_of now f) = ''low''"
  by (simp add: card_of_def mag_of_def magClass_def)

lemma marker_of_null_mag:
  "mag (props_of f) = None \<Longrightarrow> length (coords_of f) \<ge> 2 \<Longrightarrow>
   \<exists>m. marker_of now f = Some m \<and> color m = ''#64ffda'' \<and> radius m = 4"
  by (simp add: marker_of_def mag_of_def magColor_def or_zero_def Let_def)

lemma marker_radius_min: "marker_of now f = Some m \<Longrightarrow> radius m \<ge> 4"
  by (auto simp add: marker_of_def Let_def split: if_splits)

lemma list_start_page_load:
  "list_start t_now page_load = Inr (isoString (t_now - 7 * msPerDay))"
  by (simp add: list_start_def page_load_def number_or_def days_before_def new_Date_def
      toISOString_def trunc_def t_now_def maxTime_def msPerDay_def)

text \<open>
  C10.  An event whose magnitude is null or undefined (also because it has no
  properties at all) is rendered by fetchQuakesAndRender with magnitude 0: its card,
  at the event's position in the list, is in the 'low' tier, and when the event has
  coordinates its marker on the map is teal with radius 4, which is the smallest radius
  any marker of the layer has.
\<close>

theorem null_magnitude_rendered_low:
  assumes start: "list_start now0 s = Inr start"
    and resp: "fetch (list_url start) = Response True (Data (Some fs))"
    and i: "i < length fs"
    and null: "mag (props_of (fs ! i)) = None"
  shows "\<exists>cs. quakeListEl (snd (fetchQuakesAndRender fetch now0 now1 s)) = ListCards cs
           \<and> length cs = length fs
           \<and> card_id (cs ! i) = id_f (fs ! i)
           \<and> card_mag (cs ! i) = 0
           \<and> card_class (cs ! i) = ''low''
           \<and> (length (coords_of (fs ! i)) \<ge> 2 \<longrightarrow>
                (\<exists>m \<in> set (quakeLayer (snd (fetchQuakesAndRender fetch now0 now1 s))).
                    marker_of now1 (fs ! i) = Some m \<and> color m = ''#64ffda'' \<and> radius m = 4))
           \<and> (\<forall>m \<in> set (quakeLayer (snd (fetchQuakesAndRender fetch now0 now1 s))). radius m \<ge> 4)"
proof -
  let ?s' = "snd (fetchQuakesAndRender fetch now0 now1 s)"
  from i have ne: "fs \<noteq> []" by auto
  have cards: "quakeListEl ?s' = ListCards (map (card_of now1) fs)"
    and layer: "quakeLayer ?s' = List.map_filter (marker_of now1) fs"
    using fetchQuakes_renders [where fetch = fetch, OF start resp ne] by simp_all
  have c: "card_mag (card_of now1 (fs ! i)) = 0 \<and> card_class (card_of now1 (fs ! i)) = ''low''"
    using card_of_null_mag [OF null] .
  have idc: "card_id (card_of now1 (fs ! i)) = id_f (fs ! i)"
    by (simp add: card_of_def)
  have mk: "\<exists>m \<in> set (quakeLayer ?s').
              marker_of now1 (fs ! i) = Some m \<and> color m = ''#64ffda'' \<and> radius m = 4"
    if "length (coords_of (fs ! i)) \<ge> 2"
  proof -
    from marker_of_null_mag [OF null that] obtain m
      where m: "marker_of now1 (fs ! i) = Some m" "color m = ''#64ffda''" "radius m = 4"
      by blast
    from i have "fs ! i \<in> set fs" by simp
    with m(1) have "m \<in> set (quakeLayer ?s')"
      unfolding layer in_set_map_filter by blast
    with m show ?thesis by blast
  qed
  have rmin: "\<forall>m \<in> set (quakeLayer ?s'). radius m \<ge> 4"
    using marker_radius_min by (auto simp add: layer in_set_map_filter)
  show ?thesis
    using cards c idc mk rmin i by simp
qed

theorem null_magnitude_rendered_low_witness:
  "\<exists>cs. quakeListEl (snd (fetchQuakesAndRender (feed_of [quake_b, quake_a]) t_now (t_now + 1000)
            page_load)) = ListCards cs
     \<and> length cs = 2 \<and> card_id (cs ! 1) = ''us7000a'' \<and> card_mag (cs ! 1) = 0
     \<and> card_class (cs ! 1) = ''low''
     \<and> (\<exists>m \<in> set (quakeLayer (snd (fetchQuakesAndRender (feed_of [quake_b, quake_a]) t_now
            (t_now + 1000) page_load))). color m = ''#64ffda'' \<and> radius m = 4)"
proof -
  have resp: "feed_of [quake_b, quake_a] (list_url (isoString (t_now - 7 * msPerDay)))
                = Response True (Data (Some [quake_b, quake_a]))"
    by (simp add: feed_of_def)
  have i: "(1::nat) < length [quake_b, quake_a]" by simp
  have null: "mag (props_of ([quake_b, quake_a] ! 1)) = None"
    by (simp add: quake_a_def props_of_def)
  have co: "length (coords_of ([quake_b, quake_a] ! 1)) \<ge> 2"
    by (simp add: quake_a_def coords_of_def)
  from null_magnitude_rendered_low [where fetch = "feed_of [quake_b, quake_a]"
      and ?now1.0 = "t_now + 1000", OF list_start_page_load resp i null] co
  show ?thesis
    by (auto simp add: quake_a_def)
qed

section \<open>Notifications and the seen set\<close>

lemma extends_refl: "extends s s"
  by (simp add: extends_def)

lemma extends_same: "seenQuakes s' = seenQuakes s \<Longrightarrow> toasts s' = toasts s \<Longrightarrow> extends s s'"
  by (simp add: extends_def)

lemma extends_trans:
  assumes "extends s s'" and "extends s' s''"
  shows "extends s s''"
proof -
  from assms(1) obtain new where n: "seenQuakes s \<subseteq> seenQuakes s'" "toasts s' = toasts s @ new"
    "distinct (map about new)" "\<forall>t \<in> set new. about t \<notin> seenQuakes s \<and> about t \<in> seenQuakes s'"
    unfolding extends_def by blast
  from assms(2) obtain new' where n': "seenQuakes s' \<subseteq> seenQuakes s''" "toasts s'' = toasts s' @ new'"
    "distinct (map about new')" "\<forall>t \<in> set new'. about t \<notin> seenQuakes s' \<and> about t \<in> seenQuakes s''"
    unfolding extends_def by blast
  have "toasts s'' = toasts s @ (new @ new')" using n(2) n'(2) by simp
  moreover have "distinct (map about (new @ new'))"
    using n(3,4) n'(3,4) by auto
  moreover have "\<forall>t \<in> set (new @ new'). about t \<notin> seenQuakes s \<and> about t \<in> seenQuakes s''"
    using n(1,4) n'(1,4) by auto
  moreover have "seenQuakes s \<subseteq> seenQuakes s''" using n(1) n'(1) by blast
  ultimately show ?thesis unfolding extends_def by blast
qed

lemma extends_from:
  "seenQuakes a = seenQuakes s \<Longrightarrow> toasts a = toasts s \<Longrightarrow> extends a b \<Longrightarrow> extends s b"
  by (simp add: extends_def)

lemma extends_render_feature: "extends s (render_feature now f s)"
  by (auto simp add: extends_def render_feature_def showToast_def Let_def split: option.splits)

lemma extends_fold_render: "extends s (fold (render_feature now) fs s)"
proof (induction fs arbitrary: s)
  case Nil
  show ?case by (simp add: extends_refl)
next
  case (Cons f fs)
  show ?case
    using extends_trans [OF extends_render_feature Cons.IH] by simp
qed

lemma extends_fetchQuakes: "extends s (snd (fetchQuakesAndRender fetch now0 now1 s))"
proof (cases "list_start now0 s")
  case (Inl e)
  then show ?thesis by (simp add: fetchQuakesAndRender_def extends_refl)
next
  case (Inr start)
  let ?s1 = "s\<lparr>quakeListEl := ListLoading, requests := requests s @ [list_url start]\<rparr>"
  let ?s2 = "?s1\<lparr>lastUpdatedEl := Updated now1, quakeListEl := ListCards [], quakeLayer := []\<rparr>"
  show ?thesis
  proof (cases "\<exists>fs. fetch (list_url start) = Response True (Data fs) \<and> \<not> no_features fs")
    case True
    then obtain fs where fs: "fetch (list_url start) = Response True (Data fs)" "\<not> no_features fs"
      by blast
    have "snd (fetchQuakesAndRender fetch now0 now1 s) = fold (render_feature now1) (the fs) ?s2"
      using Inr fs by (simp add: fetchQuakesAndRender_def Let_def)
    moreover have "extends s (fold (render_feature now1) (the fs) ?s2)"
      by (rule extends_from [OF _ _ extends_fold_render]) simp_all
    ultimately show ?thesis by simp
  next
    case False
    have "seenQuakes (snd (fetchQuakesAndRender fetch now0 now1 s)) = seenQuakes s
        \<and> toasts (snd (fetchQuakesAndRender fetch now0 now1 s)) = toasts s"
      using Inr False
      by (auto simp add: fetchQuakesAndRender_def Let_def fetch_error_def
          split: fetch_result.splits body.splits)
    then show ?thesis by (simp add: extends_same)
  qed
qed

lemma toasts_render_highlight: "toasts (render_highlight now fs s) = toasts s"
  by (simp add: render_highlight_def Let_def split: option.splits)

lemma seen_render_highlight: "seenQuakes s \<subseteq> seenQuakes (render_highlight now fs s)"
  by (auto simp add: render_highlight_def Let_def split: option.splits)

lemma toasts_updateMajor: "toasts (snd (updateMajorHighlight fetch now0 now1 s)) = toasts s"
  by (simp add: updateMajorHighlight_def Let_def major_error_def toasts_render_highlight
      split: sum.splits fetch_result.splits body.splits)

lemma seen_updateMajor: "seenQuakes s \<subseteq> seenQuakes (snd (updateMajorHighlight fetch now0 now1 s))"
proof -
  have "\<And>fs r. seenQuakes s \<subseteq> seenQuakes (render_highlight now1 fs (s\<lparr>mhContent := MhChecking, mhUpdated := UpdBlank, requests := r\<rparr>))"
    using seen_render_highlight [of "s\<lparr>mhContent := MhChecking, mhUpdated := UpdBlank, requests := _\<rparr>"]
    by simp
  then show ?thesis
    by (simp add: updateMajorHighlight_def Let_def major_error_def
      split: sum.splits fetch_result.splits body.splits)
qed

lemma extends_updateMajor: "extends s (snd (updateMajorHighlight fetch now0 now1 s))"
  using seen_updateMajor [of s fetch now0 now1] toasts_updateMajor [of fetch now0 now1 s]
  by (simp add: extends_def)

lemma extends_major24_toast: "extends s (major24_toast l s)"
  by (auto simp add: extends_def major24_toast_def showToast_def split: option.splits)

lemma extends_render_statistics: "extends s (render_statistics z now fs s)"
proof -
  let ?f24 = "features24_of now fs"
  let ?s1 = "s\<lparr>statDailyCountEl := StatCount (length ?f24),
                 statWeeklyCountEl := StatCount (length fs),
                 statLargest24hEl := (case largest_of ?f24 of None \<Rightarrow> StatDash
                                      | Some l \<Rightarrow> StatMag (l_mag l))\<rparr>"
  have e: "extends s (major24_toast (largest_of ?f24) ?s1)"
    by (rule extends_from [OF _ _ extends_major24_toast]) simp_all
  have "seenQuakes (render_statistics z now fs s) = seenQuakes (major24_toast (largest_of ?f24) ?s1)
      \<and> toasts (render_statistics z now fs s) = toasts (major24_toast (largest_of ?f24) ?s1)"
    by (simp add: render_statistics_def Let_def stats_error_def split: sum.splits)
  with e show ?thesis by (simp add: extends_def)
qed

lemma extends_updateStatistics: "extends s (snd (updateStatistics z fetch now0 now1 s))"
proof -
  have r: "\<And>fs u. extends s (render_statistics z now1 fs (s\<lparr>requests := u\<rparr>))"
    by (rule extends_from [OF _ _ extends_render_statistics]) simp_all
  show ?thesis
    by (simp add: updateStatistics_def Let_def stats_error_def extends_same r
      split: sum.splits fetch_result.splits body.splits)
qed

lemma extends_perform: "extends s (perform x s)"
  by (cases x) (simp_all add: extends_fetchQuakes extends_updateMajor extends_updateStatistics)

lemma extends_perform_all: "extends s (perform_all ops s)"
  unfolding perform_all_def
proof (induction ops arbitrary: s)
  case Nil
  show ?case by (simp add: extends_refl)
next
  case (Cons x ops)
  show ?case using extends_trans [OF extends_perform Cons.IH] by simp
qed

text \<open>A full refresh is such a sequence of operations.\<close>

lemma doFullRefresh_snd:
  "snd (doFullRefresh z fetch c s) =
     snd (updateStatistics z fetch (t_call c) (t_stats c)
       (snd (updateMajorHighlight fetch (t_call c) (t_major c)
         (snd (fetchQuakesAndRender fetch (t_call c) (t_list c) s)))))"
  by (simp add: doFullRefresh_def Let_def split: prod.splits)

lemma doFullRefresh_as_operations:
  "snd (doFullRefresh z fetch c s) =
     perform_all [ListOp fetch (t_call c) (t_list c), MajorOp fetch (t_call c) (t_major c),
                  StatsOp z fetch (t_call c) (t_stats c)] s"
  by (simp add: doFullRefresh_snd perform_all_def)

text \<open>
  C1.  Once an event identifier is in the seen set, it stays there, and no later
  operation of any refresh cycle shows a notification about it, whichever of the three
  functions run, in whatever order and on whatever responses.  The notifications that
  are shown are about pairwise different events, each of which was outside the seen
  set before and is inside it afterwards (fetchQuakesAndRender and updateStatistics test
  membership and insert the identifier when they notify); updateMajorHighlight shows no
  notification at all.
\<close>

theorem seen_never_notified_again:
  assumes "i \<in> seenQuakes s"
  shows "i \<in> seenQuakes (perform_all ops s)
       \<and> (\<exists>new. toasts (perform_all ops s) = toasts s @ new \<and> i \<notin> about ` set new
             \<and> distinct (map about new)
             \<and> about ` set new \<subseteq> seenQuakes (perform_all ops s) - seenQuakes s)
       \<and> toasts (perform (MajorOp fetch now0 now1) s) = toasts s"
proof -
  from extends_perform_all [of s ops] obtain new
    where n: "seenQuakes s \<subseteq> seenQuakes (perform_all ops s)"
      "toasts (perform_all ops s) = toasts s @ new" "distinct (map about new)"
      "\<forall>t \<in> set new. about t \<notin> seenQuakes s \<and> about t \<in> seenQuakes (perform_all ops s)"
    unfolding extends_def by blast
  from n(4) assms have "i \<notin> about ` set new" by blast
  moreover from n(4) have "about ` set new \<subseteq> seenQuakes (perform_all ops s) - seenQuakes s"
    by blast
  ultimately show ?thesis
    using n(1,2,3) assms by (auto simp add: toasts_updateMajor)
qed

theorem seen_never_notified_again_witness:
  "''us7000b'' \<in> seenQuakes (page_load\<lparr>seenQuakes := {''us7000b''}\<rparr>)
   \<and> ''us7000b'' \<in> seenQuakes (perform_all
         [StatsOp manila (feed_of [quake_b]) t_now (t_now + 1000),
          ListOp (feed_of [quake_b]) t_now (t_now + 1000)]
         (page_load\<lparr>seenQuakes := {''us7000b''}\<rparr>))
   \<and> (\<exists>new. toasts (perform_all
         [StatsOp manila (feed_of [quake_b]) t_now (t_now + 1000),
          ListOp (feed_of [quake_b]) t_now (t_now + 1000)]
         (page_load\<lparr>seenQuakes := {''us7000b''}\<rparr>)) = new \<and> ''us7000b'' \<notin> about ` set new)"
proof -
  have h: "''us7000b'' \<in> seenQuakes (page_load\<lparr>seenQuakes := {''us7000b''}\<rparr>)"
    by simp
  have t: "toasts (page_load\<lparr>seenQuakes := {''us7000b''}\<rparr>) = []"
    by (simp add: page_load_def)
  from seen_never_notified_again [OF h, of
      "[StatsOp manila (feed_of [quake_b]) t_now (t_now + 1000),
        ListOp (feed_of [quake_b]) t_now (t_now + 1000)]"] h t
  show ?thesis by auto
qed

section \<open>The largest event of the last 24 hours\<close>

lemma largest_of_snoc: "largest_of (xs @ [x]) = largest_step x (largest_of xs)"
  by (simp add: largest_of_def)

lemma largest_step_no_mag: "mag_at f = None \<Longrightarrow> largest_step f acc = acc"
  by (cases "properties f") (auto simp add: largest_step_def mag_at_def)

lemma largest_of_None: "largest_of xs = None \<longleftrightarrow> (\<forall>f \<in> set xs. mag_at f = None)"
proof (induction xs rule: rev_induct)
  case Nil
  show ?case by (simp add: largest_of_def)
next
  case (snoc x xs)
  show ?case
  proof (cases "mag_at x")
    case None
    then show ?thesis using snoc by (simp add: largest_of_snoc largest_step_no_mag)
  next
    case (Some m)
    then have "largest_step x (largest_of xs) \<noteq> None"
      by (auto simp add: largest_step_def mag_at_def split: option.splits)
    with Some show ?thesis by (simp add: largest_of_snoc)
  qed
qed

lemma first_max_keep:
  assumes "first_max xs i m" and "mag_at x = None \<or> (\<exists>m'. mag_at x = Some m' \<and> m' \<le> m)"
  shows "first_max (xs @ [x]) i m"
  using assms unfolding first_max_def
  by (auto simp add: nth_append less_Suc_eq)

lemma first_max_new:
  assumes "mag_at x = Some m"
    and "\<forall>j < length xs. \<forall>m'. mag_at (xs ! j) = Some m' \<longrightarrow> m' < m"
  shows "first_max (xs @ [x]) (length xs) m"
  using assms unfolding first_max_def
  by (auto simp add: nth_append less_Suc_eq)

lemma largest_of_Some:
  "largest_of xs = Some l \<Longrightarrow> \<exists>i. first_max xs i (l_mag l) \<and> built_from l (xs ! i)"
proof (induction xs arbitrary: l rule: rev_induct)
  case Nil
  then show ?case by (simp add: largest_of_def)
next
  case (snoc x xs)
  show ?case
  proof (cases "mag_at x")
    case None
    with snoc.prems have "largest_of xs = Some l"
      by (simp add: largest_of_snoc largest_step_no_mag)
    from snoc.IH [OF this] obtain i where i: "first_max xs i (l_mag l)" "built_from l (xs ! i)"
      by blast
    from i(1) have "i < length xs" by (simp add: first_max_def)
    with i first_max_keep [OF i(1), of x] None show ?thesis
      by (auto simp add: nth_append)
  next
    case (Some m)
    then obtain p where p: "properties x = Some p" "mag p = Some m"
      by (auto simp add: mag_at_def split: option.splits)
    show ?thesis
    proof (cases "largest_of xs")
      case None
      then have none: "\<forall>f \<in> set xs. mag_at f = None" by (simp add: largest_of_None)
      from snoc.prems None p
      have l: "l = \<lparr>l_mag = m, l_place = place p, l_time = time p, l_id = id_f x, l_url = url p\<rparr>"
        by (simp add: largest_of_snoc largest_step_def)
      have "first_max (xs @ [x]) (length xs) m"
        by (rule first_max_new [OF Some]) (use none in auto)
      moreover have "built_from l ((xs @ [x]) ! length xs)"
        using l p by (simp add: built_from_def)
      ultimately show ?thesis using l by auto
    next
      case old: (Some l0)
      from snoc.IH [OF old] obtain i where i: "first_max xs i (l_mag l0)" "built_from l0 (xs ! i)"
        by blast
      show ?thesis
      proof (cases "m > l_mag l0")
        case True
        with snoc.prems old p
        have l: "l = \<lparr>l_mag = m, l_place = place p, l_time = time p, l_id = id_f x, l_url = url p\<rparr>"
          by (simp add: largest_of_snoc largest_step_def)
        have "\<forall>j < length xs. \<forall>m'. mag_at (xs ! j) = Some m' \<longrightarrow> m' < m"
          using i(1) True unfolding first_max_def by fastforce
        from first_max_new [OF Some this] have "first_max (xs @ [x]) (length xs) m" .
        moreover have "built_from l ((xs @ [x]) ! length xs)"
          using l p by (simp add: built_from_def)
        ultimately show ?thesis using l by auto
      next
        case False
        with snoc.prems old p have l: "l = l0"
          by (simp add: largest_of_snoc largest_step_def)
        from False Some have "mag_at x = None \<or> (\<exists>m'. mag_at x = Some m' \<and> m' \<le> l_mag l0)"
          by simp
        from first_max_keep [OF i(1) this] have "first_max (xs @ [x]) i (l_mag l0)" .
        moreover from i(1) have "i < length xs" by (simp add: first_max_def)
        ultimately show ?thesis using i(2) l by (auto simp add: nth_append)
      qed
    qed
  qed
qed

lemma statLargest_major24_toast: "statLargest24hEl (major24_toast l s) = statLargest24hEl s"
  by (simp add: major24_toast_def showToast_def split: option.splits)

lemma render_statistics_largest:
  "statLargest24hEl (render_statistics z now features s) =
     (case daily_buckets z now features of
        Inl e \<Rightarrow> StatDash
      | Inr b \<Rightarrow> (case largest_of (features24_of now features) of
                    None \<Rightarrow> StatDash | Some l \<Rightarrow> StatMag (l_mag l)))"
  by (simp add: render_statistics_def Let_def statLargest_major24_toast stats_error_def
      split: sum.splits)

text \<open>
  C8.  In updateStatistics the largest event of the last 24 hours is the result of one
  scan, in order, over the events whose timestamp is present and at most 24 hours old.
  The scan yields nothing exactly when none of these events has a magnitude; otherwise it
  yields the record built from an event whose magnitude is the largest present one, and
  that event is the first with this magnitude (every earlier event that has a magnitude
  has a strictly smaller one), so events without a magnitude never take part and ties
  keep the first.  The stat shows the placeholder when the scan yields nothing, and else
  the magnitude found (unless the later bucket computation fails, which also leaves the
  placeholder).
\<close>

theorem largest24_first_maximum:
  "set (features24_of now features) =
      {f \<in> set features. truthy_time (time_of f) \<and> the (time_of f) \<ge> now - 24 * 60 * 60 * 1000}
   \<and> (largest_of (features24_of now features) = None
        \<longleftrightarrow> (\<forall>f \<in> set (features24_of now features). mag_at f = None))
   \<and> (\<forall>l. largest_of (features24_of now features) = Some l \<longrightarrow>
         (\<exists>i. first_max (features24_of now features) i (l_mag l)
             \<and> built_from l (features24_of now features ! i)))
   \<and> statLargest24hEl (render_statistics z now features s) =
       (case largest_of (features24_of now features) of
          None \<Rightarrow> StatDash
        | Some l \<Rightarrow> (case daily_buckets z now features of
                      Inl e \<Rightarrow> StatDash | Inr b \<Rightarrow> StatMag (l_mag l)))"
proof -
  have "set (features24_of now features) =
      {f \<in> set features. truthy_time (time_of f) \<and> the (time_of f) \<ge> now - 24 * 60 * 60 * 1000}"
    by (auto simp add: features24_of_def in_past24_def)
  moreover have "statLargest24hEl (render_statistics z now features s) =
       (case largest_of (features24_of now features) of
          None \<Rightarrow> StatDash
        | Some l \<Rightarrow> (case daily_buckets z now features of
                      Inl e \<Rightarrow> StatDash | Inr b \<Rightarrow> StatMag (l_mag l)))"
    by (simp add: render_statistics_largest split: sum.splits option.splits)
  ultimately show ?thesis
    using largest_of_None [of "features24_of now features"] largest_of_Some
    by blast
qed

theorem largest24_first_maximum_witness:
  "largest_of (features24_of t_now [quake_e, quake_a, quake_b, quake_d]) =
     Some \<lparr>l_mag = 5.4, l_place = Some ''Mindanao, Philippines'', l_time = Some 1741636800000,
       l_id = ''us7000b'', l_url = None\<rparr>
   \<and> (\<exists>i. first_max (features24_of t_now [quake_e, quake_a, quake_b, quake_d]) i 5.4
         \<and> built_from \<lparr>l_mag = 5.4, l_place = Some ''Mindanao, Philippines'',
               l_time = Some 1741636800000, l_id = ''us7000b'', l_url = None\<rparr>
             (features24_of t_now [quake_e, quake_a, quake_b, quake_d] ! i))"
proof -
  let ?l = "\<lparr>l_mag = 5.4, l_place = Some ''Mindanao, Philippines'', l_time = Some 1741636800000,
       l_id = ''us7000b'', l_url = None\<rparr>"
  have f24: "features24_of t_now [quake_e, quake_a, quake_b, quake_d] = [quake_a, quake_b, quake_d]"
    by (simp add: features24_of_def in_past24_def time_of_def truthy_time_def t_now_def
        quake_a_def quake_b_def quake_d_def quake_e_def)
  have l: "largest_of [quake_a, quake_b, quake_d] = Some ?l"
    by (simp add: largest_of_def largest_step_def quake_a_def quake_b_def quake_d_def)
  have "\<forall>l. largest_of [quake_a, quake_b, quake_d] = Some l \<longrightarrow>
         (\<exists>i. first_max [quake_a, quake_b, quake_d] i (l_mag l)
             \<and> built_from l ([quake_a, quake_b, quake_d] ! i))"
    using largest24_first_maximum [of t_now "[quake_e, quake_a, quake_b, quake_d]" manila page_load]
    unfolding f24 by blast
  with l have "\<exists>i. first_max [quake_a, quake_b, quake_d] i (l_mag ?l)
             \<and> built_from ?l ([quake_a, quake_b, quake_d] ! i)"
    by blast
  with l show ?thesis unfolding f24 by simp
qed

section \<open>The daily buckets\<close>

lemma day_key_valid: "\<bar>t\<bar> \<le> maxTime \<Longrightarrow> day_key (timeClip t) = Inr (utc_key t)"
  by (simp add: day_key_def timeClip_def toISOString_def utc_key_def)

lemma bump_keys: "map fst (bump k b) = map fst b"
proof (cases "map_of b k")
  case None
  then show ?thesis by (simp add: bump_def)
next
  case (Some c)
  then have "k \<in> fst ` set b" by (metis domI dom_map_of_conv_image_fst)
  with Some show ?thesis by (simp add: bump_def AList.update_keys)
qed

lemma bump_map_of:
  "map_of (bump k b) k' =
     (case map_of b k' of None \<Rightarrow> None | Some c \<Rightarrow> Some (if k' = k then c + 1 else c))"
  by (auto simp add: bump_def AList.update_conv' split: option.splits)

lemma count_features_counts:
  assumes "\<forall>f \<in> set fs. truthy_time (time_of f) \<longrightarrow> \<bar>the (time_of f)\<bar> \<le> maxTime"
  shows "\<exists>b'. count_features fs b = Inr b' \<and> map fst b' = map fst b \<and>
           (\<forall>k. map_of b' k = (case map_of b k of None \<Rightarrow> None | Some c \<Rightarrow> Some (c + counted fs k)))"
  using assms
proof (induction fs arbitrary: b)
  case Nil
  show ?case by (simp add: counted_def split: option.splits)
next
  case (Cons f fs)
  show ?case
  proof (cases "truthy_time (time_of f)")
    case False
    from Cons.IH [of b] Cons.prems obtain b' where
      b': "count_features fs b = Inr b'" "map fst b' = map fst b"
        "\<forall>k. map_of b' k = (case map_of b k of None \<Rightarrow> None | Some c \<Rightarrow> Some (c + counted fs k))"
      by auto
    have "counted (f # fs) k = counted fs k" for k using False by (simp add: counted_def)
    with b' False show ?thesis by (simp cong: option.case_cong)
  next
    case True
    with Cons.prems have "\<bar>the (time_of f)\<bar> \<le> maxTime" by simp
    then have key: "day_key (timeClip (the (time_of f))) = Inr (utc_key (the (time_of f)))"
      by (rule day_key_valid)
    let ?k = "utc_key (the (time_of f))"
    from Cons.IH [of "bump ?k b"] Cons.prems obtain b' where
      b': "count_features fs (bump ?k b) = Inr b'" "map fst b' = map fst (bump ?k b)"
        "\<forall>k. map_of b' k = (case map_of (bump ?k b) k of None \<Rightarrow> None
                               | Some c \<Rightarrow> Some (c + counted fs k))"
      by auto
    have c: "counted (f # fs) k = (if k = ?k then counted fs k + 1 else counted fs k)" for k
      using True by (auto simp add: counted_def)
    have "\<forall>k. map_of b' k = (case map_of b k of None \<Rightarrow> None
                               | Some c \<Rightarrow> Some (c + counted (f # fs) k))"
      using b'(3) by (auto simp add: bump_map_of c split: option.splits)
    with b'(1,2) True key show ?thesis by (simp add: bump_keys)
  qed
qed

lemma build_buckets_zero:
  "build_buckets z now js b = Inr b' \<Longrightarrow> \<forall>k \<in> set (map fst b). map_of b k = Some 0 \<Longrightarrow>
   \<forall>k \<in> set (map fst b'). map_of b' k = Some 0"
proof (induction js arbitrary: b)
  case Nil
  then show ?case by simp
next
  case (Cons i js)
  from Cons.prems(1) obtain key where key: "day_key (setDate_back z now i) = Inr key"
    "build_buckets z now js (AList.update key 0 b) = Inr b'"
    by (auto split: sum.splits)
  have "\<forall>k \<in> set (map fst (AList.update key 0 b)). map_of (AList.update key 0 b) k = Some 0"
    using Cons.prems(2) by (auto simp add: AList.update_conv' AList.update_keys split: if_splits)
  from Cons.IH [OF key(2) this] show ?case .
qed

lemma day_key_Some: "day_key (Some t) = Inr (utc_key t)"
  by (simp add: day_key_def toISOString_def utc_key_def)

lemma utc_key_eq:
  assumes "civil (t div msPerDay) = (y, m, d)"
    and "isoYear y = ys" and "length ys = 4"
    and "pad 2 m = ms" and "length ms = 2"
    and "pad 2 d = ds" and "length ds = 2"
  shows "utc_key t = ys @ ''-'' @ ms @ ''-'' @ ds"
proof -
  obtain rest where "isoString t = (ys @ ''-'' @ ms @ ''-'' @ ds) @ rest"
    using assms(1,2,4,6) by (simp add: isoString_def Let_def)
  moreover have "length (ys @ ''-'' @ ms @ ''-'' @ ds) = 10"
    using assms(3,5,7) by simp
  ultimately show ?thesis
    unfolding utc_key_def by (simp del: append_assoc)
qed

lemma civil_march_2025:
  "civil 20151 = (2025, 3, 4)" "civil 20152 = (2025, 3, 5)" "civil 20153 = (2025, 3, 6)"
  "civil 20154 = (2025, 3, 7)" "civil 20155 = (2025, 3, 8)" "civil 20156 = (2025, 3, 9)"
  "civil 20157 = (2025, 3, 10)" "civil 20158 = (2025, 3, 11)"
  unfolding civil_def Let_def by simp_all

lemma pad_eval:
  "isoYear 2025 = ''2025''" "pad 2 3 = ''03''" "pad 2 4 = ''04''" "pad 2 5 = ''05''"
  "pad 2 6 = ''06''" "pad 2 7 = ''07''" "pad 2 8 = ''08''" "pad 2 9 = ''09''"
  "pad 2 10 = ''10''" "pad 2 11 = ''11''"
  by (simp_all add: isoYear_def pad_def dec.simps)

lemma utc_key_march_2025:
  assumes "civil (t div msPerDay) = (2025, 3, d)" and "pad 2 d = ds" and "length ds = 2"
  shows "utc_key t = ''2025-03-'' @ ds"
  using utc_key_eq [OF assms(1) pad_eval(1) _ pad_eval(2) _ assms(2,3)] by simp

lemma keys_manila:
  "utc_key 1741140000000 = ''2025-03-05''" "utc_key 1741226400000 = ''2025-03-06''"
  "utc_key 1741312800000 = ''2025-03-07''" "utc_key 1741399200000 = ''2025-03-08''"
  "utc_key 1741485600000 = ''2025-03-09''" "utc_key 1741572000000 = ''2025-03-10''"
  "utc_key 1741658400000 = ''2025-03-11''"
  by (simp_all add: utc_key_march_2025 msPerDay_def civil_march_2025 pad_eval)

lemma manila_keys:
  "build_buckets manila t_now [6, 5, 4, 3, 2, 1, 0] [] =
     Inr [(''2025-03-05'', 0), (''2025-03-06'', 0), (''2025-03-07'', 0), (''2025-03-08'', 0),
          (''2025-03-09'', 0), (''2025-03-10'', 0), (''2025-03-11'', 0)]"
  by (simp add: manila_def t_now_def setDate_back_def timeClip_def maxTime_def msPerDay_def
      day_key_Some keys_manila)

lemma keys_new_york:
  "utc_key 1741048200000 = ''2025-03-04''" "utc_key 1741134600000 = ''2025-03-05''"
  "utc_key 1741221000000 = ''2025-03-06''" "utc_key 1741307400000 = ''2025-03-07''"
  "utc_key 1741393800000 = ''2025-03-08''" "utc_key 1741480200000 = ''2025-03-09''"
  "utc_key 1741563000000 = ''2025-03-09''"
  by (simp_all add: utc_key_march_2025 msPerDay_def civil_march_2025 pad_eval)

lemma new_york_keys:
  "build_buckets new_york 1741563000000 [6, 5, 4, 3, 2, 1, 0] [] =
     Inr [(''2025-03-04'', 0), (''2025-03-05'', 0), (''2025-03-06'', 0), (''2025-03-07'', 0),
          (''2025-03-08'', 0), (''2025-03-09'', 0)]"
  by (simp add: new_york_def setDate_back_def timeClip_def maxTime_def msPerDay_def
      day_key_Some keys_new_york)

lemma weekChart_major24_toast: "weekChart (major24_toast l s) = weekChart s"
  by (simp add: major24_toast_def showToast_def split: option.splits)

lemma render_statistics_chart:
  "daily_buckets z now features = Inr b \<Longrightarrow>
   weekChart (render_statistics z now features s) = Some (chart_of b)"
  by (simp add: render_statistics_def Let_def)

text \<open>
  C3, as amended.  In updateStatistics every fetched event with a (non-zero) timestamp
  is counted in the bucket whose key is the date of its timestamp in UTC, when that
  key is one of the pre-built buckets; an event whose key is none of them changes
  nothing and raises no error.  So when the buckets can be built and every timestamp is
  in the range of a Date, the computation succeeds, the keys are the pre-built ones in
  their order, each bucket holds the number of events with its key, and this is what the
  chart is given.
\<close>

theorem events_counted_by_utc_day:
  assumes valid: "\<forall>f \<in> set features. truthy_time (time_of f) \<longrightarrow> \<bar>the (time_of f)\<bar> \<le> maxTime"
    and built: "build_buckets z now [6, 5, 4, 3, 2, 1, 0] [] = Inr b0"
  shows "\<exists>b. daily_buckets z now features = Inr b
           \<and> map fst b = map fst b0
           \<and> (\<forall>k \<in> set (map fst b0). map_of b k = Some (counted features k))
           \<and> weekChart (render_statistics z now features s) = Some (chart_of b)"
proof -
  from count_features_counts [OF valid, of b0] obtain b where
    b: "count_features features b0 = Inr b" "map fst b = map fst b0"
      "\<forall>k. map_of b k = (case map_of b0 k of None \<Rightarrow> None | Some c \<Rightarrow> Some (c + counted features k))"
    by blast
  have d: "daily_buckets z now features = Inr b"
    using built b(1) by (simp add: daily_buckets_def)
  have zero: "\<forall>k \<in> set (map fst b0). map_of b0 k = Some 0"
    using build_buckets_zero [OF built] by simp
  have "\<forall>k \<in> set (map fst b0). map_of b k = Some (counted features k)"
    using b(3) zero by simp
  with d b(2) render_statistics_chart [OF d] show ?thesis by blast
qed

theorem events_counted_by_utc_day_witness:
  "\<exists>b. daily_buckets manila t_now [quake_a, quake_b, quake_c] = Inr b
     \<and> map_of b ''2025-03-10'' = Some 2 \<and> map_of b ''2025-03-11'' = Some 1
     \<and> map fst b = [''2025-03-05'', ''2025-03-06'', ''2025-03-07'', ''2025-03-08'',
          ''2025-03-09'', ''2025-03-10'', ''2025-03-11'']"
proof -
  have valid: "\<forall>f \<in> set [quake_a, quake_b, quake_c].
      truthy_time (time_of f) \<longrightarrow> \<bar>the (time_of f)\<bar> \<le> maxTime"
    by (simp add: quake_a_def quake_b_def quake_c_def time_of_def maxTime_def)
  have k: "utc_key 1741636800000 = ''2025-03-10''" "utc_key 1741651200000 = ''2025-03-11''"
    by (simp_all add: utc_key_march_2025 msPerDay_def civil_march_2025 pad_eval)
  have c: "counted [quake_a, quake_b, quake_c] ''2025-03-10'' = 2"
      "counted [quake_a, quake_b, quake_c] ''2025-03-11'' = 1"
    by (simp_all add: counted_def quake_a_def quake_b_def quake_c_def time_of_def
        truthy_time_def k)
  from events_counted_by_utc_day [OF valid manila_keys, of page_load] obtain b where
    b: "daily_buckets manila t_now [quake_a, quake_b, quake_c] = Inr b"
      "map fst b = map fst [(''2025-03-05'', 0::nat), (''2025-03-06'', 0), (''2025-03-07'', 0),
         (''2025-03-08'', 0), (''2025-03-09'', 0), (''2025-03-10'', 0), (''2025-03-11'', 0)]"
      "\<forall>k \<in> set (map fst [(''2025-03-05'', 0::nat), (''2025-03-06'', 0), (''2025-03-07'', 0),
         (''2025-03-08'', 0), (''2025-03-09'', 0), (''2025-03-10'', 0), (''2025-03-11'', 0)]).
         map_of b k = Some (counted [quake_a, quake_b, quake_c] k)"
    by blast
  from b(3) c have "map_of b ''2025-03-10'' = Some 2 \<and> map_of b ''2025-03-11'' = Some 1"
    by simp
  with b(1,2) show ?thesis by simp
qed

text \<open>
  C3 as stated fails: the day is not the local day of the Philippines.  On a host in
  Manila at 2025-03-11T02:00Z, an event of 2025-03-10T20:00Z, which is 04:00 on 11 March
  in the Philippines, is counted in the bucket of 10 March and the bucket of 11 March
  stays empty.
\<close>

theorem local_day_counterexample:
  "daily_buckets manila t_now [quake_b] =
     Inr [(''2025-03-05'', 0), (''2025-03-06'', 0), (''2025-03-07'', 0), (''2025-03-08'', 0),
          (''2025-03-09'', 0), (''2025-03-10'', 1), (''2025-03-11'', 0)]
   \<and> truthy_time (time_of quake_b)
   \<and> spec_local_day_key (the (time_of quake_b)) = ''2025-03-11''"
proof -
  have k: "utc_key 1741636800000 = ''2025-03-10''" "utc_key 1741665600000 = ''2025-03-11''"
    by (simp_all add: utc_key_march_2025 msPerDay_def civil_march_2025 pad_eval)
  have "spec_local_day_key 1741636800000 = utc_key 1741665600000"
    by (simp add: spec_local_day_key_def utc_key_def)
  moreover have "daily_buckets manila t_now [quake_b] =
     Inr [(''2025-03-05'', 0), (''2025-03-06'', 0), (''2025-03-07'', 0), (''2025-03-08'', 0),
          (''2025-03-09'', 0), (''2025-03-10'', 1), (''2025-03-11'', 0)]"
    unfolding daily_buckets_def manila_keys
    by (simp add: quake_b_def time_of_def truthy_time_def timeClip_def maxTime_def
        day_key_Some k bump_def)
  ultimately show ?thesis
    by (simp add: k quake_b_def time_of_def truthy_time_def)
qed

section \<open>The bucket keys and the host's time zone\<close>

text \<open>
  C7.  The seven keys are computed by moving the local date back and reading the date
  in UTC.  On a host in New York at 2025-03-09T23:30Z (19:30 local time, on the day
  daylight saving time starts) the day before, at the same local time, is
  2025-03-09T00:30Z: both have the key 2025-03-09, and the map has six entries, not
  seven.
\<close>

theorem dst_day_collapses_buckets:
  "daily_buckets new_york 1741563000000 [] =
     Inr [(''2025-03-04'', 0), (''2025-03-05'', 0), (''2025-03-06'', 0), (''2025-03-07'', 0),
          (''2025-03-08'', 0), (''2025-03-09'', 0)]
   \<and> setDate_back new_york 1741563000000 1 = Some 1741480200000
   \<and> utc_key 1741480200000 = utc_key 1741563000000
   \<and> labels (the (weekChart (render_statistics new_york 1741563000000 [] page_load))) =
       [''2025-03-04'', ''2025-03-05'', ''2025-03-06'', ''2025-03-07'', ''2025-03-08'',
        ''2025-03-09'']"
proof -
  have d: "daily_buckets new_york 1741563000000 [] =
     Inr [(''2025-03-04'', 0), (''2025-03-05'', 0), (''2025-03-06'', 0), (''2025-03-07'', 0),
          (''2025-03-08'', 0), (''2025-03-09'', 0)]"
    unfolding daily_buckets_def new_york_keys by simp
  have "setDate_back new_york 1741563000000 1 = Some 1741480200000"
    by (simp add: new_york_def setDate_back_def timeClip_def maxTime_def msPerDay_def)
  moreover have "labels (the (weekChart (render_statistics new_york 1741563000000 [] page_load))) =
       [''2025-03-04'', ''2025-03-05'', ''2025-03-06'', ''2025-03-07'', ''2025-03-08'',
        ''2025-03-09'']"
    by (simp add: render_statistics_chart [OF d] chart_of_def)
  ultimately show ?thesis using d by (simp add: keys_new_york)
qed

text \<open>On a host whose offset from UTC never changes, the keys are those of the instants
  exactly 6, 5, ..., 0 days before now.\<close>

lemma fixed_offset_back:
  "\<forall>t u. z t u = c \<Longrightarrow> setDate_back z now i = timeClip (now - int i * msPerDay)"
  by (simp add: setDate_back_def)

section \<open>Evaluation of the top level\<close>

lemma exec_append:
  "exec pg (xs @ ys) sc =
     (case exec pg xs sc of (Fulfilled, sc1) \<Rightarrow> exec pg ys sc1 | (Rejected e, sc1) \<Rightarrow> (Rejected e, sc1))"
  by (induction xs arbitrary: sc) (simp_all split: sum.splits)

lemma quakes_not_function: "''quakes'' \<notin> set function_names"
  by (simp add: function_names_def)

lemma exec_initialization_error:
  "map_error pg = Some e \<Longrightarrow>
   exec pg initialization instantiate =
     (Rejected e, instantiate\<lparr>initialized := initialized instantiate \<union>
        set [''quakeListEl'', ''lastUpdatedEl'', ''timeRangeSel'', ''refreshBtn'',
     ''toastContainer'', ''mhContent'', ''mhUpdated'', ''refreshSecondsInput'', ''toggleAutoBtn'',
     ''countdownEl'', ''statDailyCountEl'', ''statWeeklyCountEl'', ''statLargest24hEl'',
     ''weekChartCanvasEl'', ''weekChartCanvas'', ''PH_BBOX'']\<rparr>)"
  by (simp add: initialization_def lines_13_30_def lines_43_51_def declare_all_def)

lemma exec_initialization:
  assumes "map_error pg = None"
  shows "\<exists>sc. exec pg initialization instantiate = (Fulfilled, sc)
           \<and> ''quakes'' \<notin> initialized sc \<and> calls sc = [] \<and> \<not> table_rendered sc
           \<and> init_started sc
           \<and> listeners sc =
               (if element pg ''timeRange'' then [(''timeRange'', ''change'')] else [])
               @ (if element pg ''refreshBtn'' then [(''refreshBtn'', ''click'')] else [])
               @ (if element pg ''toggleAuto'' then [(''toggleAuto'', ''click'')] else [])
               @ (if element pg ''refreshSeconds'' then [(''refreshSeconds'', ''change'')] else [])"
  using assms quakes_not_function
  by (simp add: initialization_def instantiate_def lines_13_30_def lines_43_51_def
      lines_56_65_def line_472_def add_listener_def read_var_def declare_all_def
      split del: if_split)

lemma exec_after_init:
  assumes "''quakes'' \<notin> initialized sc"
  shows "\<exists>sc1. exec pg after_init sc =
           (Rejected (if element pg ''quake-table-body'' then ReferenceError else TypeError), sc1)
         \<and> ''quakes'' \<notin> initialized sc1 \<and> calls sc1 = calls sc
         \<and> table_rendered sc1 = table_rendered sc
         \<and> listeners sc1 = listeners sc \<and> init_started sc1 = init_started sc"
  using assms
  by (simp add: after_init_def line_482_def line_483_def lines_485_501_def read_var_def
      declare_all_def)

lemma present_listeners_alt:
  "present_listeners pg =
     (if element pg ''timeRange'' then [(''timeRange'', ''change'')] else [])
     @ (if element pg ''refreshBtn'' then [(''refreshBtn'', ''click'')] else [])
     @ (if element pg ''toggleAuto'' then [(''toggleAuto'', ''click'')] else [])
     @ (if element pg ''refreshSeconds'' then [(''refreshSeconds'', ''change'')] else [])"
  by (simp add: present_listeners_def)

text \<open>
  C2.  The evaluation of the script's top level always throws, and the calls of
  loadWeather and testUSGS at its end never run.  When the initialisation itself
  completes (the map is built), the statements after it throw at \<open>tableBody.innerHTML\<close>
  with a TypeError if the page has no table body, and otherwise at \<open>quakes.length\<close>
  with a ReferenceError, because \<open>quakes\<close> is read before the declaration that
  initialises it; the table is never rendered and \<open>quakes\<close> is never initialised.  The
  listeners registered by the initialisation and the initial refresh stay as they
  were.
\<close>

theorem top_level_always_throws:
  "(\<exists>e. fst (run_script pg) = Rejected e)
   \<and> calls (snd (run_script pg)) = []
   \<and> ''quakes'' \<notin> initialized (snd (run_script pg))
   \<and> \<not> table_rendered (snd (run_script pg))
   \<and> (map_error pg = None \<longrightarrow>
        fst (run_script pg) =
          Rejected (if element pg ''quake-table-body'' then ReferenceError else TypeError)
        \<and> listeners (snd (run_script pg)) = present_listeners pg
        \<and> init_started (snd (run_script pg)))"
proof (cases "map_error pg")
  case (Some e)
  have "''quakes'' \<notin> set [''quakeListEl'', ''lastUpdatedEl'', ''timeRangeSel'', ''refreshBtn'',
     ''toastContainer'', ''mhContent'', ''mhUpdated'', ''refreshSecondsInput'', ''toggleAutoBtn'',
     ''countdownEl'', ''statDailyCountEl'', ''statWeeklyCountEl'', ''statLargest24hEl'',
     ''weekChartCanvasEl'', ''weekChartCanvas'', ''PH_BBOX'']"
    by simp
  with Some quakes_not_function show ?thesis
    unfolding run_script_def top_level_def exec_append exec_initialization_error [OF Some]
    by (simp add: instantiate_def)
next
  case None
  from exec_initialization [OF None] obtain sc where
    sc: "exec pg initialization instantiate = (Fulfilled, sc)" "''quakes'' \<notin> initialized sc"
      "calls sc = []" "\<not> table_rendered sc" "init_started sc"
      "listeners sc = present_listeners pg"
    unfolding present_listeners_alt by blast
  from exec_after_init [OF sc(2), of pg] obtain sc1 where
    sc1: "exec pg after_init sc =
           (Rejected (if element pg ''quake-table-body'' then ReferenceError else TypeError), sc1)"
      "''quakes'' \<notin> initialized sc1" "calls sc1 = calls sc"
      "table_rendered sc1 = table_rendered sc"
      "listeners sc1 = listeners sc" "init_started sc1 = init_started sc"
    by blast
  have "run_script pg =
      (Rejected (if element pg ''quake-table-body'' then ReferenceError else TypeError), sc1)"
    unfolding run_script_def top_level_def exec_append sc(1) using sc1(1) by simp
  with sc sc1 None show ?thesis by simp
qed

theorem top_level_always_throws_witness:
  "fst (run_script plain_page) = Rejected ReferenceError
   \<and> calls (snd (run_script plain_page)) = []
   \<and> listeners (snd (run_script plain_page)) =
        [(''timeRange'', ''change''), (''refreshBtn'', ''click''), (''toggleAuto'', ''click''),
         (''refreshSeconds'', ''change'')]
   \<and> init_started (snd (run_script plain_page))"
proof -
  have "map_error plain_page = None" by (simp add: plain_page_def)
  with top_level_always_throws [of plain_page] show ?thesis
    by (simp add: plain_page_def present_listeners_def)
qed

section \<open>Each operation keeps to its own region\<close>

lemma fold_frame:
  "(\<And>f s. g (render_feature now f s) = g s) \<Longrightarrow> g (fold (render_feature now) fs s) = g s"
  by (induction fs arbitrary: s) simp_all

lemma render_feature_frame:
  "timer_view (render_feature now f s) = timer_view s"
  "major_view (render_feature now f s) = major_view s"
  "stats_view (render_feature now f s) = stats_view s"
  "timeRangeSel (render_feature now f s) = timeRangeSel s"
  by (simp_all add: render_feature_def showToast_def Let_def timer_view_def major_view_def
      stats_view_def split: option.splits)

lemma fetchQuakes_frame:
  "timer_view (snd (fetchQuakesAndRender fetch now0 now1 s)) = timer_view s"
  "major_view (snd (fetchQuakesAndRender fetch now0 now1 s)) = major_view s"
  "stats_view (snd (fetchQuakesAndRender fetch now0 now1 s)) = stats_view s"
  "timeRangeSel (snd (fetchQuakesAndRender fetch now0 now1 s)) = timeRangeSel s"
proof -
  have t: "timer_view (fold (render_feature now1) fs s') = timer_view s'" for fs s'
    by (rule fold_frame) (rule render_feature_frame)
  have m: "major_view (fold (render_feature now1) fs s') = major_view s'" for fs s'
    by (rule fold_frame) (rule render_feature_frame)
  have st: "stats_view (fold (render_feature now1) fs s') = stats_view s'" for fs s'
    by (rule fold_frame) (rule render_feature_frame)
  have r: "timeRangeSel (fold (render_feature now1) fs s') = timeRangeSel s'" for fs s'
    by (rule fold_frame) (rule render_feature_frame)
  show "timer_view (snd (fetchQuakesAndRender fetch now0 now1 s)) = timer_view s"
    by (simp add: fetchQuakesAndRender_def Let_def fetch_error_def t
        split: sum.splits fetch_result.splits body.splits)
      (simp_all add: timer_view_def)
  show "major_view (snd (fetchQuakesAndRender fetch now0 now1 s)) = major_view s"
    by (simp add: fetchQuakesAndRender_def Let_def fetch_error_def m
        split: sum.splits fetch_result.splits body.splits)
      (simp_all add: major_view_def)
  show "stats_view (snd (fetchQuakesAndRender fetch now0 now1 s)) = stats_view s"
    by (simp add: fetchQuakesAndRender_def Let_def fetch_error_def st
        split: sum.splits fetch_result.splits body.splits)
      (simp_all add: stats_view_def)
  show "timeRangeSel (snd (fetchQuakesAndRender fetch now0 now1 s)) = timeRangeSel s"
    by (simp add: fetchQuakesAndRender_def Let_def fetch_error_def r
        split: sum.splits fetch_result.splits body.splits)
qed


lemma render_highlight_frame:
  "timer_view (render_highlight now fs s) = timer_view s"
  "list_view (render_highlight now fs s) = list_view s"
  "stats_view (render_highlight now fs s) = stats_view s"
  by (simp_all add: render_highlight_def timer_view_def list_view_def stats_view_def Let_def
      split: option.splits)

lemma updateMajor_frame:
  "timer_view (snd (updateMajorHighlight fetch now0 now1 s)) = timer_view s"
  "list_view (snd (updateMajorHighlight fetch now0 now1 s)) = list_view s"
  "stats_view (snd (updateMajorHighlight fetch now0 now1 s)) = stats_view s"
proof -
  show "timer_view (snd (updateMajorHighlight fetch now0 now1 s)) = timer_view s"
    by (simp add: updateMajorHighlight_def Let_def major_error_def render_highlight_frame
        split: sum.splits fetch_result.splits body.splits)
      (simp_all add: timer_view_def)
  show "list_view (snd (updateMajorHighlight fetch now0 now1 s)) = list_view s"
    by (simp add: updateMajorHighlight_def Let_def major_error_def render_highlight_frame
        split: sum.splits fetch_result.splits body.splits)
      (simp_all add: list_view_def)
  show "stats_view (snd (updateMajorHighlight fetch now0 now1 s)) = stats_view s"
    by (simp add: updateMajorHighlight_def Let_def major_error_def render_highlight_frame
        split: sum.splits fetch_result.splits body.splits)
      (simp_all add: stats_view_def)
qed

lemma major24_toast_frame:
  "timer_view (major24_toast l s) = timer_view s"
  "list_view (major24_toast l s) = list_view s"
  "major_view (major24_toast l s) = major_view s"
  "stats_view (major24_toast l s) = stats_view s"
  by (simp_all add: major24_toast_def showToast_def timer_view_def list_view_def major_view_def
      stats_view_def split: option.splits)

lemma render_statistics_frame:
  "timer_view (render_statistics z now fs s) = timer_view s"
  "list_view (render_statistics z now fs s) = list_view s"
  "major_view (render_statistics z now fs s) = major_view s"
proof -
  let ?s1 = "s\<lparr>statDailyCountEl := StatCount (length (features24_of now fs)),
                 statWeeklyCountEl := StatCount (length fs),
                 statLargest24hEl := (case largest_of (features24_of now fs) of None \<Rightarrow> StatDash
                                      | Some l \<Rightarrow> StatMag (l_mag l))\<rparr>"
  let ?s2 = "major24_toast (largest_of (features24_of now fs)) ?s1"
  have r: "render_statistics z now fs s =
      (case daily_buckets z now fs of Inl e \<Rightarrow> stats_error ?s2
       | Inr b \<Rightarrow> ?s2\<lparr>weekChart := Some (chart_of b)\<rparr>)"
    by (simp add: render_statistics_def Let_def)
  have t: "timer_view ?s2 = timer_view s" "list_view ?s2 = list_view s" "major_view ?s2 = major_view s"
    by (simp_all add: major24_toast_frame) (simp_all add: timer_view_def list_view_def major_view_def)
  show "timer_view (render_statistics z now fs s) = timer_view s"
    unfolding r using t(1) by (simp add: timer_view_def stats_error_def split: sum.splits)
  show "list_view (render_statistics z now fs s) = list_view s"
    unfolding r using t(2) by (simp add: list_view_def stats_error_def split: sum.splits)
  show "major_view (render_statistics z now fs s) = major_view s"
    unfolding r using t(3) by (simp add: major_view_def stats_error_def split: sum.splits)
qed


lemma updateStatistics_frame:
  "timer_view (snd (updateStatistics z fetch now0 now1 s)) = timer_view s"
  "list_view (snd (updateStatistics z fetch now0 now1 s)) = list_view s"
  "major_view (snd (updateStatistics z fetch now0 now1 s)) = major_view s"
proof -
  show "timer_view (snd (updateStatistics z fetch now0 now1 s)) = timer_view s"
    by (simp add: updateStatistics_def Let_def stats_error_def render_statistics_frame
        split: sum.splits fetch_result.splits body.splits)
      (simp_all add: timer_view_def)
  show "list_view (snd (updateStatistics z fetch now0 now1 s)) = list_view s"
    by (simp add: updateStatistics_def Let_def stats_error_def render_statistics_frame
        split: sum.splits fetch_result.splits body.splits)
      (simp_all add: list_view_def)
  show "major_view (snd (updateStatistics z fetch now0 now1 s)) = major_view s"
    by (simp add: updateStatistics_def Let_def stats_error_def render_statistics_frame
        split: sum.splits fetch_result.splits body.splits)
      (simp_all add: major_view_def)
qed



section \<open>The highlight of major events\<close>

lemma isoString_nonempty: "isoString t \<noteq> []"
  by (simp add: isoString_def Let_def split: prod.splits)

lemma major_url_params:
  "major_url (isoString t) cap =
     [(''format'', Txt ''geojson''), (''orderby'', Txt ''time''), (''limit'', Cnt cap),
      (''minlatitude'', Real 4.5), (''maxlatitude'', Real 21), (''minlongitude'', Real 116),
      (''maxlongitude'', Real 127), (''starttime'', Txt (isoString t)),
      (''minmagnitude'', Real 5)]"
  by (simp add: major_url_def buildUSGSUrl_def url_defaults_def PH_BBOX_def truthy_str_def
      isoString_nonempty)

lemma clock_ok_starts:
  assumes "clock_ok now0"
  shows "toISOString (timeClip (now0 - 604800000)) = Inr (start7 now0)"
    and "toISOString (timeClip (now0 - 2592000000)) = Inr (start30 now0)"
  using assms by (simp_all add: clock_ok_def toISOString_def timeClip_def start7_def start30_def)

lemma updateMajor_fulfilled:
  "clock_ok now0 \<Longrightarrow> fst (updateMajorHighlight fetch now0 now1 s) = Fulfilled"
  by (simp add: updateMajorHighlight_def clock_ok_starts Let_def)

lemma updateMajor_first_failed:
  assumes "clock_ok now0" and "failed (fetch (major_url (start7 now0) 50))"
  shows "snd (updateMajorHighlight fetch now0 now1 s) =
     major_error now1 (s\<lparr>mhContent := MhChecking, mhUpdated := UpdBlank,
        requests := requests s @ [major_url (start7 now0) 50]\<rparr>)"
  using assms
  by (auto simp add: updateMajorHighlight_def clock_ok_starts Let_def failed_def
      split: fetch_result.splits body.splits)

lemma updateMajor_first_found:
  assumes "clock_ok now0" and "fetch (major_url (start7 now0) 50) = Response True (Data fs)"
    and "\<not> no_features fs"
  shows "snd (updateMajorHighlight fetch now0 now1 s) =
     render_highlight now1 fs (s\<lparr>mhContent := MhChecking, mhUpdated := UpdBlank,
        requests := requests s @ [major_url (start7 now0) 50]\<rparr>)"
  using assms by (simp add: updateMajorHighlight_def clock_ok_starts Let_def)

lemma updateMajor_fallback:
  assumes "clock_ok now0" and "first_empty (fetch (major_url (start7 now0) 50))"
  shows "snd (updateMajorHighlight fetch now0 now1 s) =
     (let s2 = s\<lparr>mhContent := MhChecking, mhUpdated := UpdBlank,
                  requests := requests s @ [major_url (start7 now0) 50, major_url (start30 now0) 200]\<rparr>
      in case fetch (major_url (start30 now0) 200) of
           FetchRejected \<Rightarrow> major_error now1 s2
         | Response ok30 b30 \<Rightarrow>
             (case b30 of Malformed \<Rightarrow> major_error now1 s2 | JsonNull \<Rightarrow> major_error now1 s2
              | Data fs30 \<Rightarrow> render_highlight now1 fs30 s2))"
  using assms
  by (auto simp add: updateMajorHighlight_def clock_ok_starts Let_def first_empty_def
      split: fetch_result.splits body.splits)

lemma first_cases:
  "failed r \<or> first_empty r \<or> (\<exists>fs. r = Response True (Data fs) \<and> \<not> no_features fs)"
  by (auto simp add: failed_def first_empty_def split: fetch_result.splits body.splits)

lemma failed_not_empty: "failed r \<Longrightarrow> \<not> first_empty r"
  by (auto simp add: failed_def first_empty_def split: fetch_result.splits body.splits)

lemma requests_render_highlight: "requests (render_highlight now fs s) = requests s"
  by (simp add: render_highlight_def Let_def split: option.splits)

lemma updateMajor_requests:
  assumes "clock_ok now0"
  shows "requests (snd (updateMajorHighlight fetch now0 now1 s)) =
     requests s @ (if first_empty (fetch (major_url (start7 now0) 50))
                   then [major_url (start7 now0) 50, major_url (start30 now0) 200]
                   else [major_url (start7 now0) 50])"
proof -
  consider (f) "failed (fetch (major_url (start7 now0) 50))"
    | (e) "first_empty (fetch (major_url (start7 now0) 50))"
    | (n) fs where "fetch (major_url (start7 now0) 50) = Response True (Data fs)" "\<not> no_features fs"
    using first_cases by blast
  then show ?thesis
  proof cases
    case f
    then show ?thesis
      using failed_not_empty [OF f]
      by (simp add: updateMajor_first_failed [where fetch = fetch, OF assms f] major_error_def)
  next
    case e
    then show ?thesis
      by (simp add: updateMajor_fallback [where fetch = fetch, OF assms e] Let_def major_error_def
          requests_render_highlight split: fetch_result.splits body.splits)
  next
    case n
    then have "\<not> first_empty (fetch (major_url (start7 now0) 50))"
      by (simp add: first_empty_def)
    then show ?thesis
      by (simp add: updateMajor_first_found [where fetch = fetch, OF assms n] requests_render_highlight)
  qed
qed

lemma render_highlight_found:
  "mhContent (render_highlight now (Some (f # fs)) s) = MhHighlight (highlight_of now f)
   \<and> mhUpdated (render_highlight now (Some (f # fs)) s) = Updated now
   \<and> seenQuakes (render_highlight now (Some (f # fs)) s) = insert (id_f f) (seenQuakes s)"
  by (simp add: render_highlight_def no_features_def Let_def split: option.splits)

lemma render_highlight_empty:
  "no_features fs \<Longrightarrow>
   render_highlight now fs s = s\<lparr>mhContent := MhNoMajor, mhUpdated := Checked now\<rparr>"
  by (simp add: render_highlight_def)

lemma highlight_fields:
  "hl_id (highlight_of now f) = id_f f
   \<and> hl_mag (highlight_of now f) = (case properties f of None \<Rightarrow> 0
        | Some p \<Rightarrow> (case mag p of None \<Rightarrow> 0 | Some m \<Rightarrow> m))
   \<and> hl_place (highlight_of now f) = (case properties f of None \<Rightarrow> ''Unknown place''
        | Some p \<Rightarrow> (case place p of None \<Rightarrow> ''Unknown place''
            | Some t \<Rightarrow> if t = [] then ''Unknown place'' else t))
   \<and> hl_time (highlight_of now f) = (case properties f of None \<Rightarrow> now
        | Some p \<Rightarrow> (case time p of None \<Rightarrow> now
            | Some v \<Rightarrow> if v = 0 then now else v))
   \<and> hl_url (highlight_of now f) = (case properties f of None \<Rightarrow> ''#''
        | Some p \<Rightarrow> (case url p of None \<Rightarrow> ''#''
            | Some u \<Rightarrow> if u = [] then ''#'' else u))"
  by (simp add: highlight_of_def mag_of_def props_of_def or_str_def or_time_def truthy_time_def
      split: option.splits)

text \<open>
  C6.  updateMajorHighlight first sends the query for magnitude at least 5 since 7 days
  before now, ordered by time, limited to 50 events.  It sends a second query, the same
  but since 30 days before now and limited to 200, exactly when the first succeeded
  with no events.  The first event of the result that is kept becomes the highlight:
  the panel shows that event's identifier, its magnitude (0 when it has none), its place
  (\<open>Unknown place\<close> when it has none), its time (the time of rendering when it has none)
  and its link, and the identifier enters the seen set.  When both results are empty the
  panel shows the empty state, nothing else changes, and the function ends normally.
\<close>

theorem major_highlight_query_and_fallback:
  assumes ok: "clock_ok now0"
  shows "major_url (start7 now0) 50 =
           [(''format'', Txt ''geojson''), (''orderby'', Txt ''time''), (''limit'', Cnt 50),
            (''minlatitude'', Real 4.5), (''maxlatitude'', Real 21), (''minlongitude'', Real 116),
            (''maxlongitude'', Real 127),
            (''starttime'', Txt (isoString (now0 - 7 * 24 * 60 * 60 * 1000))),
            (''minmagnitude'', Real 5)]
       \<and> major_url (start30 now0) 200 =
           [(''format'', Txt ''geojson''), (''orderby'', Txt ''time''), (''limit'', Cnt 200),
            (''minlatitude'', Real 4.5), (''maxlatitude'', Real 21), (''minlongitude'', Real 116),
            (''maxlongitude'', Real 127),
            (''starttime'', Txt (isoString (now0 - 30 * 24 * 60 * 60 * 1000))),
            (''minmagnitude'', Real 5)]
       \<and> fst (updateMajorHighlight fetch now0 now1 s) = Fulfilled
       \<and> requests (snd (updateMajorHighlight fetch now0 now1 s)) =
           requests s @ (if first_empty (fetch (major_url (start7 now0) 50))
                         then [major_url (start7 now0) 50, major_url (start30 now0) 200]
                         else [major_url (start7 now0) 50])
       \<and> (\<forall>f fs. fetch (major_url (start7 now0) 50) = Response True (Data (Some (f # fs))) \<longrightarrow>
             (\<exists>h. mhContent (snd (updateMajorHighlight fetch now0 now1 s)) = MhHighlight h
                  \<and> h = highlight_of now1 f
                  \<and> hl_id h = id_f f
                  \<and> hl_mag h = (case properties f of None \<Rightarrow> 0
                       | Some p \<Rightarrow> (case mag p of None \<Rightarrow> 0 | Some m \<Rightarrow> m))
                  \<and> hl_place h = (case properties f of None \<Rightarrow> ''Unknown place''
                       | Some p \<Rightarrow> (case place p of None \<Rightarrow> ''Unknown place''
                           | Some t \<Rightarrow> if t = [] then ''Unknown place'' else t))
                  \<and> hl_time h = (case properties f of None \<Rightarrow> now1
                       | Some p \<Rightarrow> (case time p of None \<Rightarrow> now1
                           | Some v \<Rightarrow> if v = 0 then now1 else v))
                  \<and> hl_url h = (case properties f of None \<Rightarrow> ''#''
                       | Some p \<Rightarrow> (case url p of None \<Rightarrow> ''#''
                           | Some u \<Rightarrow> if u = [] then ''#'' else u)))
             \<and> mhUpdated (snd (updateMajorHighlight fetch now0 now1 s)) = Updated now1
             \<and> seenQuakes (snd (updateMajorHighlight fetch now0 now1 s)) = insert (id_f f) (seenQuakes s))
       \<and> (\<forall>f fs ok30. first_empty (fetch (major_url (start7 now0) 50))
             \<and> fetch (major_url (start30 now0) 200) = Response ok30 (Data (Some (f # fs))) \<longrightarrow>
             (\<exists>h. mhContent (snd (updateMajorHighlight fetch now0 now1 s)) = MhHighlight h
                  \<and> h = highlight_of now1 f
                  \<and> hl_id h = id_f f
                  \<and> hl_mag h = (case properties f of None \<Rightarrow> 0
                       | Some p \<Rightarrow> (case mag p of None \<Rightarrow> 0 | Some m \<Rightarrow> m))
                  \<and> hl_place h = (case properties f of None \<Rightarrow> ''Unknown place''
                       | Some p \<Rightarrow> (case place p of None \<Rightarrow> ''Unknown place''
                           | Some t \<Rightarrow> if t = [] then ''Unknown place'' else t))
                  \<and> hl_time h = (case properties f of None \<Rightarrow> now1
                       | Some p \<Rightarrow> (case time p of None \<Rightarrow> now1
                           | Some v \<Rightarrow> if v = 0 then now1 else v))
                  \<and> hl_url h = (case properties f of None \<Rightarrow> ''#''
                       | Some p \<Rightarrow> (case url p of None \<Rightarrow> ''#''
                           | Some u \<Rightarrow> if u = [] then ''#'' else u)))
             \<and> mhUpdated (snd (updateMajorHighlight fetch now0 now1 s)) = Updated now1
             \<and> seenQuakes (snd (updateMajorHighlight fetch now0 now1 s)) = insert (id_f f) (seenQuakes s))
       \<and> (\<forall>fs30 ok30. first_empty (fetch (major_url (start7 now0) 50))
             \<and> fetch (major_url (start30 now0) 200) = Response ok30 (Data fs30) \<and> no_features fs30 \<longrightarrow>
             mhContent (snd (updateMajorHighlight fetch now0 now1 s)) = MhNoMajor
             \<and> mhUpdated (snd (updateMajorHighlight fetch now0 now1 s)) = Checked now1
             \<and> majorMarkers (snd (updateMajorHighlight fetch now0 now1 s)) = majorMarkers s
             \<and> seenQuakes (snd (updateMajorHighlight fetch now0 now1 s)) = seenQuakes s)"
proof -
  let ?u7 = "major_url (start7 now0) 50" and ?u30 = "major_url (start30 now0) 200"
  let ?s' = "snd (updateMajorHighlight fetch now0 now1 s)"
  have found1: "mhContent ?s' = MhHighlight (highlight_of now1 f) \<and> mhUpdated ?s' = Updated now1
             \<and> seenQuakes ?s' = insert (id_f f) (seenQuakes s)"
    if "fetch ?u7 = Response True (Data (Some (f # fs)))" for f fs
    using updateMajor_first_found [where fetch = fetch and ?now1.0 = now1 and s = s, OF ok that]
    by (simp add: no_features_def render_highlight_found)
  have found2: "mhContent ?s' = MhHighlight (highlight_of now1 f) \<and> mhUpdated ?s' = Updated now1
             \<and> seenQuakes ?s' = insert (id_f f) (seenQuakes s)"
    if "first_empty (fetch ?u7)" "fetch ?u30 = Response ok30 (Data (Some (f # fs)))" for f fs ok30
    using updateMajor_fallback [where fetch = fetch and ?now1.0 = now1 and s = s, OF ok that(1)] that(2)
    by (simp add: Let_def render_highlight_found)
  have none: "mhContent ?s' = MhNoMajor \<and> mhUpdated ?s' = Checked now1
             \<and> majorMarkers ?s' = majorMarkers s \<and> seenQuakes ?s' = seenQuakes s"
    if "first_empty (fetch ?u7)" "fetch ?u30 = Response ok30 (Data fs30)" "no_features fs30"
    for fs30 ok30
    using updateMajor_fallback [where fetch = fetch and ?now1.0 = now1 and s = s, OF ok that(1)] that(2,3)
    by (simp add: Let_def render_highlight_empty)
  show ?thesis
    using found1 found2 none updateMajor_fulfilled [where fetch = fetch, OF ok] updateMajor_requests [where fetch = fetch, OF ok]
    by (simp add: start7_def start30_def major_url_params highlight_fields)
qed

lemma clock_ok_t_now: "clock_ok t_now"
  by (simp add: clock_ok_def t_now_def maxTime_def)

theorem major_highlight_query_and_fallback_witness:
  "clock_ok t_now
   \<and> requests (snd (updateMajorHighlight fallback_feed t_now (t_now + 1000) page_load)) =
        [major_url (start7 t_now) 50, major_url (start30 t_now) 200]
   \<and> mhContent (snd (updateMajorHighlight fallback_feed t_now (t_now + 1000) page_load)) =
        MhHighlight \<lparr>hl_id = ''us7000c'', hl_mag = 6.1, hl_place = ''Samar, Philippines'',
          hl_time = 1741651200000, hl_depth = None, hl_url = ''#'', hl_focus = None\<rparr>
   \<and> mhUpdated (snd (updateMajorHighlight fallback_feed t_now (t_now + 1000) page_load)) =
        Updated (t_now + 1000)
   \<and> seenQuakes (snd (updateMajorHighlight fallback_feed t_now (t_now + 1000) page_load)) =
        {''us7000c''}"
proof -
  have ne: "major_url (start30 t_now) 200 \<noteq> major_url (start7 t_now) 50"
    by (simp add: start7_def start30_def major_url_params)
  have e: "first_empty (fallback_feed (major_url (start7 t_now) 50))"
    by (simp add: fallback_feed_def first_empty_def no_features_def)
  have f: "fallback_feed (major_url (start30 t_now) 200) = Response True (Data (Some [quake_c, quake_b]))"
    using ne by (simp add: fallback_feed_def)
  note T = major_highlight_query_and_fallback [where fetch = fallback_feed
      and ?now1.0 = "t_now + 1000" and s = page_load, OF clock_ok_t_now]
  note req = T [THEN conjunct2, THEN conjunct2, THEN conjunct2, THEN conjunct1]
  note found = T [THEN conjunct2, THEN conjunct2, THEN conjunct2, THEN conjunct2, THEN conjunct2,
      THEN conjunct1, rule_format, OF conjI, OF e f]
  have r: "requests page_load = []" "seenQuakes page_load = {}"
    by (simp_all add: page_load_def)
  have i: "id_f quake_c = ''us7000c''" by (simp add: quake_c_def)
  have h: "highlight_of (t_now + 1000) quake_c =
      \<lparr>hl_id = ''us7000c'', hl_mag = 6.1, hl_place = ''Samar, Philippines'',
       hl_time = 1741651200000, hl_depth = None, hl_url = ''#'', hl_focus = None\<rparr>"
    by (simp add: highlight_of_def quake_c_def mag_of_def props_of_def coords_of_def or_str_def
        or_time_def truthy_time_def depth_of_def focus_of_def)
  from found obtain h' where
    "mhContent (snd (updateMajorHighlight fallback_feed t_now (t_now + 1000) page_load)) = MhHighlight h'"
    "h' = highlight_of (t_now + 1000) quake_c"
    "mhUpdated (snd (updateMajorHighlight fallback_feed t_now (t_now + 1000) page_load)) = Updated (t_now + 1000)"
    "seenQuakes (snd (updateMajorHighlight fallback_feed t_now (t_now + 1000) page_load)) =
       insert (id_f quake_c) (seenQuakes page_load)"
    by blast
  then show ?thesis
    using req e by (simp add: clock_ok_t_now r i h)
qed

section \<open>A refresh cycle as a whole\<close>










section \<open>Rounding to doubles\<close>

lemma rne_bounds:
  "den > 0 \<Longrightarrow> num div den \<le> rne num den \<and> rne num den \<le> num div den + 1"
  by (simp add: rne_def Let_def)

lemma rne_exact: "den dvd num \<Longrightarrow> den > 0 \<Longrightarrow> rne num den = num div den"
  by (auto simp add: rne_def Let_def)

lemma rne_mono:
  assumes "den > 0" and "n \<le> m"
  shows "rne n den \<le> rne m den"
proof (cases "n div den = m div den")
  case False
  with assms have "n div den < m div den"
    by (meson zdiv_mono1 order_le_neq_trans)
  then show ?thesis
    using rne_bounds [OF assms(1), of n] rne_bounds [OF assms(1), of m] by linarith
next
  case True
  have "n mod den \<le> m mod den"
    using True assms(2) by (metis add_le_cancel_left mult_div_mod_eq)
  then show ?thesis
    using True by (auto simp add: rne_def Let_def)
qed

lemma rne_scale:
  assumes "c > 0"
  shows "rne (c * x) (c * d) = rne x d"
proof -
  have m: "(c * x) mod (c * d) = c * (x mod d)" by (rule mult_mod_right [symmetric])
  have q: "(c * x) div (c * d) = x div d" using assms by simp
  have 1: "(c * d < 2 * (c * (x mod d))) = (d < 2 * (x mod d))"
    using assms mult_less_cancel_left_pos [of c d "2 * (x mod d)"] by (simp add: mult.left_commute)
  have 2: "(2 * (c * (x mod d)) = c * d) = (2 * (x mod d) = d)"
    using assms mult_cancel_left [of c "2 * (x mod d)" d] by (simp add: mult.left_commute)
  show ?thesis unfolding rne_def Let_def m q 1 2 ..
qed

lemma rnd_small: "n > 0 \<Longrightarrow> bitlen n \<le> 53 \<Longrightarrow> rnd n = n"
  by (auto simp add: rnd_def fl_pos_def floor_of_def Let_def rne_def)

lemma rnd_big:
  "bitlen n > 53 \<Longrightarrow> rnd n = rne n (2 ^ nat (bitlen n - 53)) * 2 ^ nat (bitlen n - 53)"
  by (simp add: rnd_def fl_pos_def floor_of_def Let_def)

lemma bitlen_mono: "n \<le> m \<Longrightarrow> bitlen n \<le> bitlen m"
  by (simp add: bitlen_def floorlog_mono)

lemma pow_split: "b \<ge> 53 \<Longrightarrow> (2::int) ^ nat (b - 1) = 2 ^ 52 * 2 ^ nat (b - 53)"
proof -
  assume a: "b \<ge> 53"
  have "nat (b - 1) = 52 + nat (b - 53)" using a by simp
  then show ?thesis by (simp only: power_add)
qed

lemma pow_split': "b \<ge> 53 \<Longrightarrow> (2::int) ^ nat b = 2 ^ 53 * 2 ^ nat (b - 53)"
proof -
  assume a: "b \<ge> 53"
  have "nat b = 53 + nat (b - 53)" using a by simp
  then show ?thesis by (simp only: power_add)
qed

lemma div_less_int: "x < y * d \<Longrightarrow> 0 < d \<Longrightarrow> x div d < (y::int)"
proof -
  assume a: "x < y * d" "0 < d"
  have "x div d * d \<le> x" using a(2) by (simp add: minus_mod_eq_div_mult [symmetric])
  with a(1) have "x div d * d < y * d" by linarith
  then show ?thesis using a(2) by (simp only: mult_less_cancel_right_pos)
qed

text \<open>The quotient of a number of b bits, b at least 53, by 2 ^ (b - 53) has 53 bits.\<close>

lemma mantissa_bounds:
  assumes "2 ^ 52 * P \<le> x" and "x < 2 ^ 53 * P" and "(P::int) > 0"
  shows "2 ^ 52 \<le> x div P" and "x div P < 2 ^ 53"
proof -
  have "(2 ^ 52 * P) div P \<le> x div P" using assms(1,3) by (intro zdiv_mono1) simp_all
  then show "2 ^ 52 \<le> x div P" using assms(3) by simp
  show "x div P < 2 ^ 53" by (rule div_less_int [OF assms(2,3)])
qed

lemma rnd_form:
  assumes "n > 0" and "bitlen n > 53"
  shows "\<exists>M. rnd n = M * 2 ^ nat (bitlen n - 53) \<and> 2 ^ 52 \<le> M \<and> M \<le> 2 ^ 53"
proof -
  let ?P = "(2::int) ^ nat (bitlen n - 53)"
  have P: "?P > 0" by simp
  have lo: "2 ^ 52 * ?P \<le> n" and hi: "n < 2 ^ 53 * ?P"
    using bitlen_bounds [OF assms(1)] pow_split [OF less_imp_le [OF assms(2)]]
      pow_split' [OF less_imp_le [OF assms(2)]] by simp_all
  note m = mantissa_bounds [OF lo hi P]
  have "2 ^ 52 \<le> rne n ?P" and "rne n ?P \<le> 2 ^ 53"
    using m rne_bounds [OF P, of n] by linarith+
  then show ?thesis using rnd_big [OF assms(2)] by blast
qed

lemma rnd_lower:
  assumes "n > 0"
  shows "2 ^ nat (bitlen n - 1) \<le> rnd n"
proof (cases "bitlen n \<le> 53")
  case True
  then show ?thesis using bitlen_bounds [OF assms] rnd_small [OF assms] by simp
next
  case False
  then have b: "bitlen n > 53" by simp
  from rnd_form [OF assms b] obtain M where
    M: "rnd n = M * 2 ^ nat (bitlen n - 53)" "2 ^ 52 \<le> M" by blast
  have "2 ^ 52 * 2 ^ nat (bitlen n - 53) \<le> M * (2::int) ^ nat (bitlen n - 53)"
    using M(2) by (intro mult_right_mono) simp_all
  then show ?thesis using M(1) pow_split [OF less_imp_le [OF b]] by simp
qed

lemma rnd_upper:
  assumes "n > 0"
  shows "rnd n \<le> 2 ^ nat (bitlen n)"
proof (cases "bitlen n \<le> 53")
  case True
  then show ?thesis using bitlen_bounds [OF assms] rnd_small [OF assms] by simp
next
  case False
  then have b: "bitlen n > 53" by simp
  from rnd_form [OF assms b] obtain M where
    M: "rnd n = M * 2 ^ nat (bitlen n - 53)" "M \<le> 2 ^ 53" by blast
  have "M * (2::int) ^ nat (bitlen n - 53) \<le> 2 ^ 53 * 2 ^ nat (bitlen n - 53)"
    using M(2) by (intro mult_right_mono) simp_all
  then show ?thesis using M(1) pow_split' [OF less_imp_le [OF b]] by simp
qed

lemma rnd_pos: "n > 0 \<Longrightarrow> 1 \<le> rnd n"
proof -
  assume n: "n > 0"
  have "(1::int) \<le> 2 ^ nat (bitlen n - 1)" by simp
  with rnd_lower [OF n] show ?thesis by linarith
qed

text \<open>Rounding is monotone.\<close>

lemma rnd_mono:
  assumes "n > 0" and "n \<le> m"
  shows "rnd n \<le> rnd m"
proof -
  have m: "m > 0" using assms by simp
  have bm: "bitlen n \<le> bitlen m" by (rule bitlen_mono [OF assms(2)])
  consider "bitlen m \<le> 53" | "bitlen n = bitlen m" "bitlen m > 53" | "bitlen n < bitlen m" "bitlen m > 53"
    using bm by linarith
  then show ?thesis
  proof cases
    case 1
    then show ?thesis using rnd_small [OF assms(1)] rnd_small [OF m] bm assms(2) by simp
  next
    case 2
    have "rne n (2 ^ nat (bitlen m - 53)) \<le> rne m (2 ^ nat (bitlen m - 53))"
      by (rule rne_mono [OF _ assms(2)]) simp
    then show ?thesis
      using rnd_big [of n] rnd_big [of m] 2 by (simp add: mult_right_mono)
  next
    case 3
    have "rnd n \<le> 2 ^ nat (bitlen n)" by (rule rnd_upper [OF assms(1)])
    also have "\<dots> \<le> 2 ^ nat (bitlen m - 1)"
      using 3 by (intro power_increasing) simp_all
    also have "\<dots> \<le> rnd m" by (rule rnd_lower [OF m])
    finally show ?thesis .
  qed
qed

text \<open>A number with a mantissa of at most 53 bits is a double, so rounding is idempotent.\<close>

lemma rnd_repr:
  assumes "0 < M" and "M \<le> 2 ^ 53"
  shows "rnd (M * 2 ^ t) = M * 2 ^ t"
proof (cases "bitlen (M * 2 ^ t) \<le> 53")
  case True
  then show ?thesis using assms(1) by (intro rnd_small) simp_all
next
  case False
  let ?n = "M * 2 ^ t"
  have b: "bitlen ?n > 53" using False by simp
  have bl: "bitlen ?n = bitlen M + int t" using assms(1) by (simp add: bitlen_pow2)
  have dv: "(2::int) ^ nat (bitlen ?n - 53) dvd ?n"
  proof (cases "M = 2 ^ 53")
    case True
    have "bitlen M \<le> 54" and "\<not> bitlen M \<le> 53"
      unfolding True bitlen_le_iff_power by simp_all
    then have "bitlen M = 54" by simp
    then have e: "nat (bitlen ?n - 53) = Suc t" using bl by simp
    have "?n = 2 ^ Suc t * 2 ^ 52" unfolding True by simp
    then show ?thesis unfolding e by (metis dvd_triv_left)
  next
    case False
    then have "M < 2 ^ 53" using assms(2) by simp
    then have "bitlen M \<le> 53" using assms(1) by (simp add: bitlen_le_iff_power)
    then have "nat (bitlen ?n - 53) \<le> t" using bl by simp
    then have "(2::int) ^ nat (bitlen ?n - 53) dvd 2 ^ t" by (rule le_imp_power_dvd)
    then show ?thesis by simp
  qed
  have "rne ?n (2 ^ nat (bitlen ?n - 53)) = ?n div 2 ^ nat (bitlen ?n - 53)"
    by (rule rne_exact [OF dv]) simp
  then show ?thesis using rnd_big [OF b] dv by simp
qed

lemma rnd_idem:
  assumes "n > 0"
  shows "rnd (rnd n) = rnd n"
proof (cases "bitlen n \<le> 53")
  case True
  then show ?thesis using rnd_small [OF assms] by simp
next
  case False
  then have b: "bitlen n > 53" by simp
  from rnd_form [OF assms b] obtain M where
    M: "rnd n = M * 2 ^ nat (bitlen n - 53)" "2 ^ 52 \<le> M" "M \<le> 2 ^ 53" by blast
  have "0 < M" using M(2) by (rule less_le_trans [rotated]) simp
  from rnd_repr [OF this M(3)] show ?thesis unfolding M(1) .
qed

lemma dbl_of_finite: "0 \<le> m \<Longrightarrow> m < 2 ^ 1024 \<Longrightarrow> dbl_of m = Finite m"
  by (simp add: dbl_of_def)

lemma fl_int_pos: "n > 0 \<Longrightarrow> fl_int n = dbl_of (rnd n)"
  by (simp add: fl_int_def)

lemma fl_int_double:
  assumes "m > 0" and "rnd m = m" and "m < 2 ^ 1024"
  shows "fl_int m = Finite m"
  using assms by (simp add: fl_int_pos dbl_of_finite)

lemma double_rnd:
  assumes "m > 0" and "fl_int m = Finite m"
  shows "rnd m = m" and "m < 2 ^ 1024"
proof -
  have d: "dbl_of (rnd m) = Finite m" using assms by (simp add: fl_int_pos)
  have p: "1 \<le> rnd m" by (rule rnd_pos [OF assms(1)])
  show "rnd m = m" using d p by (simp add: dbl_of_def split: if_splits)
  then show "m < 2 ^ 1024" using d by (simp add: dbl_of_def split: if_splits)
qed

text \<open>Integers below \<open>2 ^ 53\<close> in absolute value are doubles.\<close>

lemma fl_int_exact:
  assumes "\<bar>n\<bar> < 2 ^ 53"
  shows "fl_int n = Finite n"
proof -
  have r: "rnd m = m" if "0 < m" "m < 2 ^ 53" for m
    using that by (intro rnd_small) (simp_all add: bitlen_le_iff_power)
  have b: "m < 2 ^ 1024" if "m < 2 ^ 53" for m :: int
    using that by (rule less_trans) simp
  consider "n = 0" | "0 < n" | "n < 0" by linarith
  then show ?thesis
  proof cases
    case 1
    then show ?thesis by (simp add: fl_int_def)
  next
    case 2
    then show ?thesis using assms r [of n] b [of n] by (simp add: fl_int_pos dbl_of_finite)
  next
    case 3
    then have "0 < - n" "- n < 2 ^ 53" using assms by simp_all
    from r [OF this] b [OF this(2)] 3 show ?thesis by (simp add: fl_int_def dbl_of_def)
  qed
qed

lemma fl_int_overflow:
  assumes "n \<ge> 2 ^ 1024"
  shows "fl_int n = PosInf"
proof -
  have n: "n > 0" using assms by (rule less_le_trans [rotated]) simp
  have "\<not> bitlen n \<le> 1024" using assms by (simp add: bitlen_le_iff_power)
  then have "(2::int) ^ 1024 \<le> 2 ^ nat (bitlen n - 1)"
    by (intro power_increasing) simp_all
  with rnd_lower [OF n] have "2 ^ 1024 \<le> rnd n" by linarith
  then show ?thesis using n by (simp add: fl_int_pos dbl_of_def)
qed

lemma fl_int_pos_cases:
  assumes "n > 0"
  shows "fl_int n = PosInf \<or> (fl_int n = Finite (rnd n) \<and> fl_int (rnd n) = Finite (rnd n))"
proof (cases "rnd n < 2 ^ 1024")
  case True
  have p: "0 < rnd n" using rnd_pos [OF assms] by simp
  have "fl_int n = Finite (rnd n)" using True p assms by (simp add: fl_int_pos dbl_of_finite)
  moreover have "fl_int (rnd n) = Finite (rnd n)"
    by (rule fl_int_double [OF p rnd_idem [OF assms] True])
  ultimately show ?thesis by simp
next
  case False
  then show ?thesis using assms by (simp add: fl_int_pos dbl_of_def)
qed

text \<open>An integer of \<open>2 ^ 1015\<close> or more, as a double and times 1000, is infinite.\<close>

lemma times1000_overflow:
  assumes "n \<ge> 2 ^ 1015"
  shows "times1000 (fl_int n) = PosInf"
proof -
  have n: "n > 0" using assms by (rule less_le_trans [rotated]) simp
  have "\<not> bitlen n \<le> 1015" using assms by (simp add: bitlen_le_iff_power)
  then have "(2::int) ^ 1015 \<le> 2 ^ nat (bitlen n - 1)"
    by (intro power_increasing) simp_all
  with rnd_lower [OF n] have "2 ^ 1015 \<le> rnd n" by linarith
  then have "2 ^ 1015 * 1000 \<le> rnd n * 1000" by simp
  moreover have "(2::int) ^ 1024 \<le> 2 ^ 1015 * 1000" by simp
  ultimately have "2 ^ 1024 \<le> rnd n * 1000" by (rule order_trans [rotated])
  then have "fl_int (rnd n * 1000) = PosInf" by (rule fl_int_overflow)
  then show ?thesis
    using fl_int_pos_cases [OF n] by (auto simp add: times1000_def)
qed

text \<open>One less than a double greater than 1, rounded, is a double between 1 and it.\<close>

lemma fl_int_pred:
  assumes "1 < r" and "fl_int r = Finite r"
  shows "\<exists>r'. fl_int (r - 1) = Finite r' \<and> 1 \<le> r' \<and> r' \<le> r \<and> fl_int r' = Finite r'"
proof -
  have r: "0 < r" and r1: "0 < r - 1" using assms(1) by simp_all
  note d = double_rnd [OF r assms(2)]
  have "rnd (r - 1) \<le> rnd r" by (rule rnd_mono [OF r1]) simp
  then have le: "rnd (r - 1) \<le> r" using d(1) by simp
  then have lt: "rnd (r - 1) < 2 ^ 1024" using d(2) by simp
  have p: "1 \<le> rnd (r - 1)" by (rule rnd_pos [OF r1])
  from fl_int_pos_cases [OF r1] lt p
  have "fl_int (r - 1) = Finite (rnd (r - 1)) \<and> fl_int (rnd (r - 1)) = Finite (rnd (r - 1))"
    using r1 by (auto simp add: fl_int_pos dbl_of_def)
  then show ?thesis using p le by blast
qed

text \<open>
  \<open>Math.floor(a / 1000)\<close> of a double of at least 1000 is a double of at least 1, and at
  least the exact quotient as long as that is below \<open>2 ^ 52\<close>.
\<close>

lemma floor_div1000_finite:
  assumes "1000 \<le> a" and "a < 2 ^ 1024"
  shows "\<exists>n. floor_div1000 (Finite a) = Finite n \<and> (a div 1000 \<le> n \<or> 2 ^ 52 \<le> n)
           \<and> 1 \<le> n \<and> n \<le> a \<and> fl_int n = Finite n"
proof -
  let ?q = "a div 1000"
  have q: "1 \<le> ?q" using assms(1) zdiv_mono1 [of 1000 a 1000] by simp
  then have q0: "0 < ?q" by simp
  have qa: "?q * 1000 \<le> a" by (simp add: minus_mod_eq_div_mult [symmetric])
  have aq: "a < (?q + 1) * 1000"
    using pos_mod_bound [of 1000 a] mult_div_mod_eq [of 1000 a] by (simp add: algebra_simps)
  note bb = bitlen_bounds [OF q0]
  show ?thesis
  proof (cases "bitlen ?q \<ge> 53")
    case True
    let ?P = "(2::int) ^ nat (bitlen ?q - 53)"
    let ?M = "rne a (1000 * ?P)"
    have P: "0 < ?P" by simp
    have lo: "2 ^ 52 * ?P \<le> ?q" and hi: "?q < 2 ^ 53 * ?P"
      using bb pow_split [OF True] pow_split' [OF True] by simp_all
    note m = mantissa_bounds [OF lo hi P]
    have dv: "a div (1000 * ?P) = ?q div ?P" by (simp add: zdiv_zmult2_eq)
    have M: "2 ^ 52 \<le> ?M" "?M \<le> 2 ^ 53"
      using m rne_bounds [of "1000 * ?P" a] dv by simp_all
    have M0: "0 < ?M" using M(1) by (rule less_le_trans [rotated]) simp
    have F: "floor_of (fl_pos a 1000) = ?M * ?P"
      using True by (simp add: fl_pos_def floor_of_def Let_def)
    have r: "rnd (?M * ?P) = ?M * ?P" by (rule rnd_repr [OF M0 M(2)])
    have "?M * ?P \<le> 2 ^ 53 * ?P" using M(2) by (intro mult_right_mono) simp_all
    also have "\<dots> = 2 ^ nat (bitlen ?q)" using pow_split' [OF True] by simp
    also have "\<dots> = 2 * 2 ^ nat (bitlen ?q - 1)"
      using True by (simp add: power_Suc [symmetric] Suc_nat_eq_nat_zadd1 del: power_Suc)
    also have "\<dots> \<le> 2 * ?q" using bb by simp
    finally have up: "?M * ?P \<le> 2 * ?q" .
    have up2: "2 * ?q \<le> a" using qa q by linarith
    have "2 ^ 52 * 1 \<le> ?M * ?P" using M(1) P by (intro mult_mono) simp_all
    then have low: "2 ^ 52 \<le> ?M * ?P" by simp
    then have pos: "0 < ?M * ?P" by (rule less_le_trans [rotated]) simp
    have lt: "?M * ?P < 2 ^ 1024" using up up2 assms(2) by linarith
    have "floor_div1000 (Finite a) = Finite (?M * ?P)"
      using assms(1) F pos lt by (simp add: floor_div1000_def dbl_of_finite)
    moreover have "fl_int (?M * ?P) = Finite (?M * ?P)" by (rule fl_int_double [OF pos r lt])
    moreover have "1 \<le> ?M * ?P" using pos by simp
    moreover have "?M * ?P \<le> a" using up up2 by linarith
    ultimately show ?thesis using low by blast
  next
    case False
    let ?k = "nat (53 - bitlen ?q)"
    let ?K = "(2::int) ^ ?k"
    let ?m = "rne (a * ?K) 1000"
    let ?F = "?m div ?K"
    have K: "0 < ?K" by simp
    have F: "floor_of (fl_pos a 1000) = ?F"
      using False by (simp add: fl_pos_def floor_of_def Let_def)
    have "?q * ?K * 1000 \<le> a * ?K" using qa by (simp add: mult.commute mult.left_commute)
    then have "(?q * ?K * 1000) div 1000 \<le> (a * ?K) div 1000" by (intro zdiv_mono1) simp_all
    then have l1: "?q * ?K \<le> (a * ?K) div 1000" by simp
    have "a * ?K < (?q + 1) * ?K * 1000" using aq K by (simp add: mult.commute mult.left_commute)
    then have u1: "(a * ?K) div 1000 < (?q + 1) * ?K"
      by (rule div_less_int) simp
    have mb: "?q * ?K \<le> ?m" "?m \<le> (?q + 1) * ?K"
      using rne_bounds [of 1000 "a * ?K"] l1 u1 by simp_all
    have "(?q * ?K) div ?K \<le> ?F" using mb(1) by (intro zdiv_mono1) simp_all
    then have lowF: "?q \<le> ?F" by simp
    have "?F \<le> ((?q + 1) * ?K) div ?K" using mb(2) by (intro zdiv_mono1) simp_all
    then have upF: "?F \<le> ?q + 1" by (simp del: distrib_right distrib_left)
    have "bitlen ?q \<le> 52" using False by simp
    then have q52: "?q < 2 ^ 52" by (simp add: bitlen_le_iff_power)
    have F53: "?F < 2 ^ 53" using upF q52 by simp
    have pos: "0 < ?F" using lowF q by simp
    have "bitlen ?F \<le> 53" using F53 by (simp add: bitlen_le_iff_power)
    then have r: "rnd ?F = ?F" by (rule rnd_small [OF pos])
    have lt: "?F < 2 ^ 1024" using F53 by (rule less_trans) simp
    have "floor_div1000 (Finite a) = Finite ?F"
      using assms(1) F pos lt by (simp add: floor_div1000_def dbl_of_finite)
    moreover have "fl_int ?F = Finite ?F" by (rule fl_int_double [OF pos r lt])
    moreover have "1 \<le> ?F" using pos by simp
    moreover have "?F \<le> a" using upF qa q by linarith
    ultimately show ?thesis using lowF by blast
  qed
qed

text \<open>\<open>Math.floor(a / 1000)\<close> of a multiple of 1000 is the quotient, rounded.\<close>

lemma floor_div1000_mult:
  assumes "1 \<le> n"
  shows "floor_div1000 (Finite (n * 1000)) = fl_int n"
proof -
  have n: "0 < n" using assms by simp
  have a: "1000 \<le> n * 1000" using assms by simp
  have "floor_of (fl_pos (n * 1000) 1000) = rnd n"
  proof (cases "bitlen n \<ge> 53")
    case True
    let ?P = "(2::int) ^ nat (bitlen n - 53)"
    have "rne (n * 1000) (1000 * ?P) = rne n ?P"
      using rne_scale [of 1000 n ?P] by (simp add: mult.commute)
    then have F: "floor_of (fl_pos (n * 1000) 1000) = rne n ?P * ?P"
      using True by (simp add: fl_pos_def floor_of_def Let_def)
    show ?thesis
    proof (cases "bitlen n = 53")
      case True
      then show ?thesis using F rnd_small [OF n] by (simp add: rne_def)
    next
      case False
      then show ?thesis using F True rnd_big [of n] by simp
    qed
  next
    case False
    let ?K = "(2::int) ^ nat (53 - bitlen n)"
    have "rne (n * 1000 * ?K) 1000 = (n * 1000 * ?K) div 1000"
      by (rule rne_exact) simp_all
    then have "rne (n * 1000 * ?K) 1000 = n * ?K" by simp
    then have "floor_of (fl_pos (n * 1000) 1000) = n"
      using False by (simp add: fl_pos_def floor_of_def Let_def)
    then show ?thesis using False rnd_small [OF n] by simp
  qed
  then show ?thesis using a n by (simp add: floor_div1000_def fl_int_pos)
qed

lemma floor_div1000_exact:
  assumes "1 \<le> n" and "n < 2 ^ 53"
  shows "floor_div1000 (Finite (n * 1000)) = Finite n"
  using floor_div1000_mult [OF assms(1)] fl_int_exact [of n] assms by simp

section \<open>The countdown\<close>

lemma stopAuto_idle:
  assumes "armed s \<or> idle s"
  shows "idle (stopAuto s)" and "autoEnabled (stopAuto s) = autoEnabled s"
    and "refreshSecondsInput (stopAuto s) = refreshSecondsInput s"
  using assms
  by (auto simp add: stopAuto_def armed_def idle_def truthy_id_def clearInterval_def Let_def)

text \<open>The validated seconds are a number of at least 5 or infinite.\<close>

lemma validatedSecs_cases:
  "validatedSecs secs = Infinity \<or> (\<exists>r. validatedSecs secs = Num r \<and> 5 \<le> r)"
  by (cases secs) (simp_all add: validatedSecs_def)

text \<open>The interval is a double of at least 5000 or infinite.\<close>

lemma interval_cases:
  "max5000 (times1000 (floor_num (validatedSecs secs))) = PosInf
   \<or> (\<exists>a. max5000 (times1000 (floor_num (validatedSecs secs))) = Finite a
          \<and> 5000 \<le> a \<and> a < 2 ^ 1024)"
proof -
  have t: "max5000 (times1000 (Finite m)) = PosInf
           \<or> (\<exists>a. max5000 (times1000 (Finite m)) = Finite a \<and> 5000 \<le> a \<and> a < 2 ^ 1024)"
    if m: "0 < m" for m
  proof -
    have p: "0 < m * 1000" using m by simp
    from fl_int_pos_cases [OF p] show ?thesis
    proof
      assume "fl_int (m * 1000) = PosInf"
      then show ?thesis by (simp add: times1000_def max5000_def)
    next
      assume f: "fl_int (m * 1000) = Finite (rnd (m * 1000))
                 \<and> fl_int (rnd (m * 1000)) = Finite (rnd (m * 1000))"
      have "0 < rnd (m * 1000)" using rnd_pos [OF p] by simp
      from double_rnd(2) [OF this] f have "rnd (m * 1000) < 2 ^ 1024" by simp
      then have "max 5000 (rnd (m * 1000)) < 2 ^ 1024" by simp
      then show ?thesis using f by (simp add: times1000_def max5000_def)
    qed
  qed
  from validatedSecs_cases [of secs] show ?thesis
  proof
    assume "validatedSecs secs = Infinity"
    then show ?thesis by (simp add: floor_num_def times1000_def max5000_def)
  next
    assume "\<exists>r. validatedSecs secs = Num r \<and> 5 \<le> r"
    then obtain r where r: "validatedSecs secs = Num r" "5 \<le> r" by blast
    have "5 \<le> \<lfloor>r\<rfloor>" using r(2) by (simp add: le_floor_iff)
    then have n: "0 < \<lfloor>r\<rfloor>" by simp
    from fl_int_pos_cases [OF n] show ?thesis
    proof
      assume "fl_int \<lfloor>r\<rfloor> = PosInf"
      then show ?thesis using r(1) by (simp add: floor_num_def times1000_def max5000_def)
    next
      assume f: "fl_int \<lfloor>r\<rfloor> = Finite (rnd \<lfloor>r\<rfloor>) \<and> fl_int (rnd \<lfloor>r\<rfloor>) = Finite (rnd \<lfloor>r\<rfloor>)"
      have "0 < rnd \<lfloor>r\<rfloor>" using rnd_pos [OF n] by simp
      from t [OF this] show ?thesis using r(1) f by (simp add: floor_num_def)
    qed
  qed
qed

lemma startAuto_interval:
  assumes "armed s \<or> idle s"
  shows "autoInterval (startAuto s) =
           max5000 (times1000 (floor_num (validatedSecs (number_or (refreshSecondsInput s) 30))))"
    and "countdownRemaining (startAuto s) = floor_div1000 (autoInterval (startAuto s))"
    and "autoEnabled (startAuto s) = autoEnabled s"
    and "refreshSecondsInput (startAuto s) = refreshSecondsInput s"
    and "autoEnabled s \<Longrightarrow>
           countdownEl (startAuto s) = CdSeconds (floor_div1000 (autoInterval (startAuto s)))"
    and "if autoEnabled s then armed (startAuto s)
         else idle (startAuto s) \<and> countdownEl (startAuto s) = CdPaused"
proof -
  let ?s1 = "stopAuto s"
  note i = stopAuto_idle [OF assms]
  show "autoInterval (startAuto s) =
           max5000 (times1000 (floor_num (validatedSecs (number_or (refreshSecondsInput s) 30))))"
    and "countdownRemaining (startAuto s) = floor_div1000 (autoInterval (startAuto s))"
    and "autoEnabled (startAuto s) = autoEnabled s"
    and "refreshSecondsInput (startAuto s) = refreshSecondsInput s"
    and "autoEnabled s \<Longrightarrow>
           countdownEl (startAuto s) = CdSeconds (floor_div1000 (autoInterval (startAuto s)))"
    using i by (simp_all add: startAuto_def Let_def setInterval_def split: prod.splits)
  show "if autoEnabled s then armed (startAuto s)
        else idle (startAuto s) \<and> countdownEl (startAuto s) = CdPaused"
    using i by (simp add: startAuto_def Let_def setInterval_def armed_def idle_def split: prod.splits)
qed

lemma in_range_iff:
  "floor_div1000 (autoInterval s) = Finite n \<Longrightarrow> in_range s (Finite d) \<longleftrightarrow> 1 \<le> d \<and> d \<le> n"
  by (simp add: in_range_def)

lemma startAuto_result:
  assumes "armed s \<or> idle s"
  shows "if autoEnabled s then running (startAuto s) else paused (startAuto s)"
proof (cases "autoEnabled s")
  case False
  then show ?thesis
    using startAuto_interval(3,6) [OF assms] by (simp add: paused_def)
next
  case True
  let ?t = "startAuto s"
  note f = startAuto_interval [OF assms]
  have e: "autoEnabled ?t" and a: "armed ?t" using f(3,6) True by simp_all
  have r: "countdownRemaining ?t = floor_div1000 (autoInterval ?t)"
    and d: "countdownEl ?t = CdSeconds (floor_div1000 (autoInterval ?t))"
    using f(2) f(5) [OF True] by simp_all
  from interval_cases [of "number_or (refreshSecondsInput s) 30"]
  have "running ?t"
  proof
    assume "max5000 (times1000 (floor_num (validatedSecs (number_or (refreshSecondsInput s) 30)))) = PosInf"
    then have "autoInterval ?t = PosInf" using f(1) by simp
    then show ?thesis using e a r d by (simp add: running_def floor_div1000_def)
  next
    assume "\<exists>a. max5000 (times1000 (floor_num (validatedSecs (number_or (refreshSecondsInput s) 30)))) = Finite a
          \<and> 5000 \<le> a \<and> a < 2 ^ 1024"
    then obtain x where x: "autoInterval ?t = Finite x" "5000 \<le> x" "x < 2 ^ 1024"
      using f(1) by auto
    have "1000 \<le> x" using x(2) by simp
    from floor_div1000_finite [OF this x(3)] obtain n where
      n: "floor_div1000 (Finite x) = Finite n" "1 \<le> n" "fl_int n = Finite n" by blast
    have "in_range ?t (Finite n)" using n(1,2) x(1) by (simp add: in_range_def)
    then show ?thesis using e a r d x n by (simp add: running_def)
  qed
  then show ?thesis using True by simp
qed

lemma running_or_paused_consistent: "running s \<or> paused s \<Longrightarrow> armed s \<or> idle s"
  by (auto simp add: running_def paused_def)

lemma countdown_tick_fields:
  "autoInterval (countdown_tick s) = autoInterval s"
  "autoEnabled (countdown_tick s) = autoEnabled s"
  "armed (countdown_tick s) = armed s"
  "idle (countdown_tick s) = idle s"
  "countdownRemaining (countdown_tick s) =
     (if le_zero (minus1 (countdownRemaining s)) then floor_div1000 (autoInterval s)
      else minus1 (countdownRemaining s))"
  "countdownEl (countdown_tick s) = CdSeconds (countdownRemaining (countdown_tick s))"
  by (simp_all add: countdown_tick_def Let_def armed_def idle_def)

text \<open>
  A tick on a countdown in range: the value decremented and rounded when that is
  positive, else the interval in seconds; in both cases a double in range.
\<close>

lemma tick_in_range:
  assumes "floor_div1000 (Finite a) = Finite n" and "fl_int n = Finite n"
    and "1 \<le> r" and "r \<le> n" and "fl_int r = Finite r"
  shows "\<exists>r'. (if le_zero (minus1 (Finite r)) then Finite n else minus1 (Finite r)) = Finite r'
           \<and> 1 \<le> r' \<and> r' \<le> n \<and> fl_int r' = Finite r'"
proof (cases "r = 1")
  case True
  then show ?thesis using assms by (simp add: minus1_def fl_int_def le_zero_def)
next
  case False
  then have "1 < r" using assms(3) by simp
  from fl_int_pred [OF this assms(5)] obtain r' where
    "fl_int (r - 1) = Finite r'" "1 \<le> r'" "r' \<le> r" "fl_int r' = Finite r'" by blast
  then show ?thesis using assms(4) by (simp add: minus1_def le_zero_def)
qed

lemma countdown_tick_running:
  assumes "running s"
  shows "running (countdown_tick s)"
proof (cases "autoInterval s")
  case (Finite a)
  from assms Finite obtain r d where
    a: "5000 \<le> a" "a < 2 ^ 1024" and r: "countdownRemaining s = Finite r" "fl_int r = Finite r"
      "in_range s (Finite r)" and d: "countdownEl s = CdSeconds (Finite d)"
    by (auto simp add: running_def)
  have "1000 \<le> a" using a(1) by simp
  from floor_div1000_finite [OF this a(2)] obtain n where
    n: "floor_div1000 (Finite a) = Finite n" "fl_int n = Finite n" by blast
  have rn: "1 \<le> r" "r \<le> n" using r(3) n(1) Finite by (simp_all add: in_range_def)
  from tick_in_range [OF n rn r(2)] obtain r' where
    r': "(if le_zero (minus1 (Finite r)) then Finite n else minus1 (Finite r)) = Finite r'"
      "1 \<le> r'" "r' \<le> n" "fl_int r' = Finite r'" by blast
  have c: "countdownRemaining (countdown_tick s) = Finite r'"
    unfolding countdown_tick_fields r(1) Finite n(1) by (rule r'(1))
  have "in_range (countdown_tick s) (Finite r')"
    using r'(2,3) n(1) Finite by (simp add: in_range_def countdown_tick_fields)
  then show ?thesis
    using assms Finite a c r'(4)
    by (simp add: running_def countdown_tick_fields)
next
  case PosInf
  then show ?thesis
    using assms
    by (simp add: running_def countdown_tick_fields minus1_def le_zero_def)
next
  case NegInf
  then show ?thesis using assms by (simp add: running_def)
next
  case DNaN
  then show ?thesis using assms by (simp add: running_def)
qed

lemma timer_view_running:
  assumes "timer_view s' = timer_view s"
  shows "running s' = running s"
proof -
  have e: "autoInterval s' = autoInterval s" "autoTimerId s' = autoTimerId s"
    "countdownTimerId s' = countdownTimerId s" "countdownRemaining s' = countdownRemaining s"
    "autoEnabled s' = autoEnabled s" "countdownEl s' = countdownEl s" "intervals s' = intervals s"
    using assms by (simp_all add: timer_view_def)
  have i: "in_range s' x = in_range s x" for x unfolding in_range_def e ..
  have a: "armed s' = armed s" by (simp add: armed_def e)
  show ?thesis unfolding running_def a i e ..
qed

lemma timer_view_paused: "timer_view s' = timer_view s \<Longrightarrow> paused s' = paused s"
  by (simp add: timer_view_def paused_def idle_def)

lemma doFullRefresh_timer_view: "timer_view (snd (doFullRefresh z fetch c s)) = timer_view s"
  by (simp add: doFullRefresh_snd updateStatistics_frame updateMajor_frame fetchQuakes_frame)

lemma reset_running:
  assumes "running s"
  shows "running (s\<lparr>countdownRemaining := floor_div1000 (autoInterval s)\<rparr>)"
proof (cases "autoInterval s")
  case (Finite a)
  from assms Finite have a: "5000 \<le> a" "a < 2 ^ 1024" by (auto simp add: running_def)
  have "1000 \<le> a" using a(1) by simp
  from floor_div1000_finite [OF this a(2)] obtain n where
    n: "floor_div1000 (Finite a) = Finite n" "1 \<le> n" "fl_int n = Finite n" by blast
  show ?thesis
    using assms Finite n by (auto simp add: running_def armed_def in_range_def)
next
  case PosInf
  then show ?thesis
    using assms by (simp add: running_def armed_def floor_div1000_def)
next
  case NegInf
  then show ?thesis using assms by (simp add: running_def)
next
  case DNaN
  then show ?thesis using assms by (simp add: running_def)
qed

lemma cycle_tick_running: "running s \<Longrightarrow> running (cycle_tick z fetch c s)"
proof -
  assume r: "running s"
  let ?s1 = "snd (doFullRefresh z fetch c s)"
  have "running ?s1" using r timer_view_running [OF doFullRefresh_timer_view] by simp
  from reset_running [OF this] show ?thesis by (simp add: cycle_tick_def Let_def)
qed

lemma fire_running: "running s \<Longrightarrow> running (fire i z fetch c s)"
  by (simp add: fire_def countdown_tick_running cycle_tick_running
      split: option.splits prod.splits callback.splits)

lemma fire_paused: "paused s \<Longrightarrow> fire i z fetch c s = s"
  by (simp add: fire_def paused_def idle_def)

lemma step_inv: "running s \<or> paused s \<Longrightarrow> running (step ev s) \<or> paused (step ev s)"
proof (cases ev)
  case (TimerFires i z fetch c)
  assume "running s \<or> paused s"
  then show ?thesis
    using TimerFires fire_running [of s i z fetch c] fire_paused [of s i z fetch c] by auto
next
  case ToggleClick
  assume a: "running s \<or> paused s"
  let ?s1 = "s\<lparr>autoEnabled := \<not> autoEnabled s, toggleAutoBtn := toggle_label (\<not> autoEnabled s)\<rparr>"
  have "armed ?s1 \<or> idle ?s1"
    using running_or_paused_consistent [OF a] by (simp add: armed_def idle_def)
  from startAuto_result [OF this] show ?thesis
    using ToggleClick by (auto simp add: toggle_click_def Let_def split: if_splits)
next
  case (SecondsChange v)
  assume a: "running s \<or> paused s"
  let ?s1 = "s\<lparr>refreshSecondsInput := Some (if invalid_secs v then Num 30 else v)\<rparr>"
  have "armed ?s1 \<or> idle ?s1"
    using running_or_paused_consistent [OF a] by (simp add: armed_def idle_def)
  from startAuto_result [OF this] a show ?thesis
    using SecondsChange by (auto simp add: seconds_change_def split: if_splits)
next
  case (RefreshClick z fetch c)
  assume "running s \<or> paused s"
  then show ?thesis
    using RefreshClick timer_view_running [OF doFullRefresh_timer_view]
      timer_view_paused [OF doFullRefresh_timer_view] by simp
next
  case (TimeRangeChange v z fetch c)
  assume a: "running s \<or> paused s"
  let ?s1 = "s\<lparr>timeRangeSel := Some v\<rparr>"
  let ?s' = "snd (updateStatistics z fetch (t_call c) (t_stats c)
             (snd (fetchQuakesAndRender fetch (t_call c) (t_list c) ?s1)))"
  have "timer_view ?s' = timer_view ?s1"
    by (simp add: updateStatistics_frame fetchQuakes_frame)
  also have "timer_view ?s1 = timer_view s" by (simp add: timer_view_def)
  finally have "timer_view ?s' = timer_view s" .
  then show ?thesis
    using a TimeRangeChange timer_view_running [of ?s' s] timer_view_paused [of ?s' s] by simp
next
  case InitStartAuto
  assume a: "running s \<or> paused s"
  from startAuto_result [OF running_or_paused_consistent [OF a]] show ?thesis
    using InitStartAuto by (auto split: if_splits)
qed

lemma run_inv: "running s \<or> paused s \<Longrightarrow> running (run es s) \<or> paused (run es s)"
  unfolding run_def
proof (induction es arbitrary: s)
  case Nil
  then show ?case by simp
next
  case (Cons ev es)
  from Cons.IH [OF step_inv [OF Cons.prems]] show ?case by simp
qed

text \<open>
  The timers are consistent, armed or idle, when the page is loaded, and every event
  keeps them so: a timer that is not remembered in \<open>autoTimerId\<close> or
  \<open>countdownTimerId\<close> never exists.
\<close>

lemma timer_view_consistent:
  "timer_view s' = timer_view s \<Longrightarrow> (armed s' \<or> idle s') = (armed s \<or> idle s)"
  by (simp add: timer_view_def armed_def idle_def)

lemma startAuto_consistent: "armed s \<or> idle s \<Longrightarrow> armed (startAuto s) \<or> idle (startAuto s)"
  using startAuto_interval(6) [of s] by (auto split: if_splits)

lemma step_consistent: "armed s \<or> idle s \<Longrightarrow> armed (step ev s) \<or> idle (step ev s)"
proof (cases ev)
  case (TimerFires i z fetch c)
  assume a: "armed s \<or> idle s"
  have t: "armed (countdown_tick s) \<or> idle (countdown_tick s)"
    using a by (simp add: countdown_tick_fields)
  have "timer_view ((snd (doFullRefresh z fetch c s))\<lparr>countdownRemaining := r\<rparr>)
        = timer_view (s\<lparr>countdownRemaining := r\<rparr>)" for r
    using doFullRefresh_timer_view [of z fetch c s] by (simp add: timer_view_def)
  then have c: "armed (cycle_tick z fetch c s) \<or> idle (cycle_tick z fetch c s)"
    using a timer_view_consistent [of "cycle_tick z fetch c s"
        "s\<lparr>countdownRemaining := floor_div1000 (autoInterval (snd (doFullRefresh z fetch c s)))\<rparr>"]
    by (simp add: cycle_tick_def Let_def armed_def idle_def)
  show ?thesis
    using TimerFires a t c
    by (simp add: fire_def split: option.splits prod.splits callback.splits)
next
  case ToggleClick
  assume a: "armed s \<or> idle s"
  let ?s1 = "s\<lparr>autoEnabled := \<not> autoEnabled s, toggleAutoBtn := toggle_label (\<not> autoEnabled s)\<rparr>"
  have "armed ?s1 \<or> idle ?s1" using a by (simp add: armed_def idle_def)
  from startAuto_consistent [OF this] show ?thesis
    using ToggleClick by (simp add: toggle_click_def Let_def)
next
  case (SecondsChange v)
  assume a: "armed s \<or> idle s"
  let ?s1 = "s\<lparr>refreshSecondsInput := Some (if invalid_secs v then Num 30 else v)\<rparr>"
  have "armed ?s1 \<or> idle ?s1" using a by (simp add: armed_def idle_def)
  from startAuto_consistent [OF this] a show ?thesis
    using SecondsChange by (simp add: seconds_change_def)
next
  case (RefreshClick z fetch c)
  assume "armed s \<or> idle s"
  then show ?thesis
    using RefreshClick timer_view_consistent [OF doFullRefresh_timer_view] by simp
next
  case (TimeRangeChange v z fetch c)
  assume a: "armed s \<or> idle s"
  let ?s1 = "s\<lparr>timeRangeSel := Some v\<rparr>"
  let ?s' = "snd (updateStatistics z fetch (t_call c) (t_stats c)
             (snd (fetchQuakesAndRender fetch (t_call c) (t_list c) ?s1)))"
  have "timer_view ?s' = timer_view ?s1"
    by (simp add: updateStatistics_frame fetchQuakes_frame)
  also have "timer_view ?s1 = timer_view s" by (simp add: timer_view_def)
  finally have "timer_view ?s' = timer_view s" .
  then show ?thesis
    using a TimeRangeChange timer_view_consistent [of ?s' s] by simp
next
  case InitStartAuto
  assume a: "armed s \<or> idle s"
  from startAuto_consistent [OF a] show ?thesis using InitStartAuto by simp
qed

lemma run_consistent: "armed s \<or> idle s \<Longrightarrow> armed (run es s) \<or> idle (run es s)"
  unfolding run_def
proof (induction es arbitrary: s)
  case Nil
  then show ?case by simp
next
  case (Cons ev es)
  from Cons.IH [OF step_consistent [OF Cons.prems]] show ?case by simp
qed

text \<open>What a running state shows.\<close>

lemma running_display:
  assumes "running s"
  shows "armed s
       \<and> (if autoInterval s = PosInf
           then countdownEl s = CdSeconds PosInf \<and> countdownRemaining s = PosInf
           else (\<exists>a n d r. autoInterval s = Finite a \<and> 5000 \<le> a
                   \<and> floor_div1000 (Finite a) = Finite n \<and> 5 \<le> n
                   \<and> countdownEl s = CdSeconds (Finite d) \<and> 1 \<le> d \<and> d \<le> n
                   \<and> countdownRemaining s = Finite r \<and> 1 \<le> r \<and> r \<le> n))"
proof (cases "autoInterval s")
  case (Finite a)
  from assms Finite obtain r d where
    a: "5000 \<le> a" "a < 2 ^ 1024" and r: "countdownRemaining s = Finite r"
      "in_range s (Finite r)" and d: "countdownEl s = CdSeconds (Finite d)" "in_range s (Finite d)"
    by (auto simp add: running_def)
  have "1000 \<le> a" using a(1) by simp
  from floor_div1000_finite [OF this a(2)] obtain n where
    n: "floor_div1000 (Finite a) = Finite n" "a div 1000 \<le> n \<or> 2 ^ 52 \<le> n" by blast
  have "5000 div 1000 \<le> a div 1000" using a(1) by (intro zdiv_mono1) simp_all
  then have n5: "5 \<le> n" using n(2) by auto
  have "1 \<le> r" "r \<le> n" "1 \<le> d" "d \<le> n"
    using r(2) d(2) n(1) Finite by (simp_all add: in_range_def)
  then show ?thesis using assms Finite a(1) n(1) n5 r(1) d(1) by (simp add: running_def)
next
  case PosInf
  then show ?thesis using assms by (simp add: running_def)
next
  case NegInf
  then show ?thesis using assms by (simp add: running_def)
next
  case DNaN
  then show ?thesis using assms by (simp add: running_def)
qed

text \<open>
  C4, as amended.  From any call of startAuto on (in a state whose timers are consistent,
  as every state of the page is), whatever timers fire and whatever the user does, while
  auto-refresh is enabled exactly the two timers are armed and: when the interval is
  finite, it is at least 5000, the countdown element shows an integer between 1 and
  \<open>Math.floor(autoInterval / 1000)\<close>, and the remaining seconds are in the same range;
  when \<open>Math.floor(validatedSecs) * 1000\<close> has overflowed, the interval, the remaining
  seconds and the displayed value are \<open>Infinity\<close>.
\<close>

theorem countdown_display_in_range:
  assumes "armed s \<or> idle s" and "autoEnabled (run es (startAuto s))"
  shows "armed (run es (startAuto s))
       \<and> (if autoInterval (run es (startAuto s)) = PosInf
           then countdownEl (run es (startAuto s)) = CdSeconds PosInf
              \<and> countdownRemaining (run es (startAuto s)) = PosInf
           else (\<exists>a n d r. autoInterval (run es (startAuto s)) = Finite a \<and> 5000 \<le> a
                   \<and> floor_div1000 (Finite a) = Finite n \<and> 5 \<le> n
                   \<and> countdownEl (run es (startAuto s)) = CdSeconds (Finite d) \<and> 1 \<le> d \<and> d \<le> n
                   \<and> countdownRemaining (run es (startAuto s)) = Finite r \<and> 1 \<le> r \<and> r \<le> n))"
proof -
  have "running (startAuto s) \<or> paused (startAuto s)"
    using startAuto_result [OF assms(1)] by (auto split: if_splits)
  from run_inv [OF this] assms(2) have "running (run es (startAuto s))"
    by (auto simp add: paused_def)
  then show ?thesis by (rule running_display)
qed

lemma idle_page_load: "armed page_load \<or> idle page_load"
  by (simp add: idle_def page_load_def)

lemma floor_30: "floor_num (Num 30) = Finite 30" "times1000 (Finite 30) = Finite 30000"
  "floor_div1000 (Finite 30000) = Finite 30"
  using floor_div1000_exact [of 30] by (simp_all add: floor_num_def times1000_def fl_int_exact)

lemma floor_5: "floor_num (Num 5) = Finite 5" "times1000 (Finite 5) = Finite 5000"
  "floor_div1000 (Finite 5000) = Finite 5"
  using floor_div1000_exact [of 5] by (simp_all add: floor_num_def times1000_def fl_int_exact)

lemma startAuto_page_load:
  "startAuto page_load =
     page_load\<lparr>autoInterval := Finite 30000, countdownRemaining := Finite 30, toggleAutoBtn := TgPause,
       intervals := [(1, CycleTimer, Finite 30000), (2, CountdownTick, Finite 1000)], lastTimerId := 2,
       autoTimerId := Some 1, countdownEl := CdSeconds (Finite 30), countdownTimerId := Some 2\<rparr>"
  by (simp add: startAuto_def stopAuto_def truthy_id_def page_load_def number_or_def
      validatedSecs_def toggle_label_def setInterval_def Let_def floor_30 max5000_def)

lemma five_seconds_view:
  "timer_view (seconds_change (Num 5) (startAuto page_load)) =
     (Finite 5000, Some 3, Some 4, Finite 5, True, CdSeconds (Finite 5), TgPause,
      [(3, CycleTimer, Finite 5000), (4, CountdownTick, Finite 1000)], 4, Some (Num 5))"
  unfolding startAuto_page_load
  by (simp add: seconds_change_def invalid_secs_def startAuto_def stopAuto_def truthy_id_def
      clearInterval_def page_load_def number_or_def validatedSecs_def toggle_label_def
      setInterval_def Let_def floor_5 max5000_def timer_view_def)

text \<open>The effect of the two timers on the timers' part of the state.\<close>

lemma tick_view:
  assumes "timer_view s = (iv, a, c, x, en, el, tg, ts, l, inp)"
    and "map_of ts i = Some (CountdownTick, d)"
  shows "timer_view (fire i z fetch cl s) =
     (iv, a, c, (if le_zero (minus1 x) then floor_div1000 iv else minus1 x), en,
      CdSeconds (if le_zero (minus1 x) then floor_div1000 iv else minus1 x), tg, ts, l, inp)"
  using assms by (simp add: timer_view_def fire_def countdown_tick_def Let_def)

lemma cycle_view:
  assumes "timer_view s = (iv, a, c, x, en, el, tg, ts, l, inp)"
    and "map_of ts i = Some (CycleTimer, d)"
  shows "timer_view (fire i z fetch cl s) = (iv, a, c, floor_div1000 iv, en, el, tg, ts, l, inp)"
proof -
  have "timer_view (snd (doFullRefresh z fetch cl s)) = (iv, a, c, x, en, el, tg, ts, l, inp)"
    using assms(1) doFullRefresh_timer_view [of z fetch cl s] by simp
  moreover have "intervals s = ts" using assms(1) by (simp add: timer_view_def)
  ultimately show ?thesis
    using assms(2) by (simp add: timer_view_def fire_def cycle_tick_def Let_def)
qed

lemma tick_down:
  assumes "timer_view s = (Finite 5000, a, c, Finite r, en, el, tg,
             [(3, CycleTimer, Finite 5000), (4, CountdownTick, Finite 1000)], l, inp)"
    and "1 < r" and "r < 100"
  shows "timer_view (step tick_4 s) = (Finite 5000, a, c, Finite (r - 1), en, CdSeconds (Finite (r - 1)), tg,
             [(3, CycleTimer, Finite 5000), (4, CountdownTick, Finite 1000)], l, inp)"
  using tick_view [OF assms(1), of 4 "Finite 1000" manila offline clock_now] assms(2,3)
  by (simp add: tick_4_def minus1_def le_zero_def fl_int_exact)

lemma tick_wrap:
  assumes "timer_view s = (Finite 5000, a, c, Finite 1, en, el, tg,
             [(3, CycleTimer, Finite 5000), (4, CountdownTick, Finite 1000)], l, inp)"
  shows "timer_view (step tick_4 s) = (Finite 5000, a, c, Finite 5, en, CdSeconds (Finite 5), tg,
             [(3, CycleTimer, Finite 5000), (4, CountdownTick, Finite 1000)], l, inp)"
  using tick_view [OF assms(1), of 4 "Finite 1000" manila offline clock_now]
  by (simp add: tick_4_def minus1_def le_zero_def fl_int_def floor_5)

lemma cycle_reset:
  assumes "timer_view s = (Finite 5000, a, c, x, en, el, tg,
             [(3, CycleTimer, Finite 5000), (4, CountdownTick, Finite 1000)], l, inp)"
  shows "timer_view (step cycle_3 s) = (Finite 5000, a, c, Finite 5, en, el, tg,
             [(3, CycleTimer, Finite 5000), (4, CountdownTick, Finite 1000)], l, inp)"
  using cycle_view [OF assms(1), of 3 "Finite 5000" manila offline clock_now]
  by (simp add: cycle_3_def floor_5)

lemma run_snoc: "run (es @ [e]) s = step e (run es s)"
  by (simp add: run_def)

lemma count_to_one_views:
  "timer_view (run (take 4 count_to_one) (startAuto page_load)) =
     (Finite 5000, Some 3, Some 4, Finite 5, True, CdSeconds (Finite 3), TgPause,
      [(3, CycleTimer, Finite 5000), (4, CountdownTick, Finite 1000)], 4, Some (Num 5))"
  "timer_view (run count_to_one (startAuto page_load)) =
     (Finite 5000, Some 3, Some 4, Finite 1, True, CdSeconds (Finite 1), TgPause,
      [(3, CycleTimer, Finite 5000), (4, CountdownTick, Finite 1000)], 4, Some (Num 5))"
  "timer_view (run (count_to_one @ [tick_4]) (startAuto page_load)) =
     (Finite 5000, Some 3, Some 4, Finite 5, True, CdSeconds (Finite 5), TgPause,
      [(3, CycleTimer, Finite 5000), (4, CountdownTick, Finite 1000)], 4, Some (Num 5))"
proof -
  let ?s0 = "startAuto page_load"
  let ?s1 = "step (SecondsChange (Num 5)) ?s0"
  let ?s2 = "step tick_4 ?s1"
  let ?s3 = "step tick_4 ?s2"
  let ?s4 = "step cycle_3 ?s3"
  let ?s5 = "step tick_4 ?s4"
  let ?s6 = "step tick_4 ?s5"
  let ?s7 = "step tick_4 ?s6"
  let ?s8 = "step tick_4 ?s7"
  have v1: "timer_view ?s1 =
     (Finite 5000, Some 3, Some 4, Finite 5, True, CdSeconds (Finite 5), TgPause,
      [(3, CycleTimer, Finite 5000), (4, CountdownTick, Finite 1000)], 4, Some (Num 5))"
    using five_seconds_view by simp
  have v2: "timer_view ?s2 =
     (Finite 5000, Some 3, Some 4, Finite 4, True, CdSeconds (Finite 4), TgPause,
      [(3, CycleTimer, Finite 5000), (4, CountdownTick, Finite 1000)], 4, Some (Num 5))"
    using tick_down [OF v1] by simp
  have v3: "timer_view ?s3 =
     (Finite 5000, Some 3, Some 4, Finite 3, True, CdSeconds (Finite 3), TgPause,
      [(3, CycleTimer, Finite 5000), (4, CountdownTick, Finite 1000)], 4, Some (Num 5))"
    using tick_down [OF v2] by simp
  have v4: "timer_view ?s4 =
     (Finite 5000, Some 3, Some 4, Finite 5, True, CdSeconds (Finite 3), TgPause,
      [(3, CycleTimer, Finite 5000), (4, CountdownTick, Finite 1000)], 4, Some (Num 5))"
    using cycle_reset [OF v3] by simp
  have v5: "timer_view ?s5 =
     (Finite 5000, Some 3, Some 4, Finite 4, True, CdSeconds (Finite 4), TgPause,
      [(3, CycleTimer, Finite 5000), (4, CountdownTick, Finite 1000)], 4, Some (Num 5))"
    using tick_down [OF v4] by simp
  have v6: "timer_view ?s6 =
     (Finite 5000, Some 3, Some 4, Finite 3, True, CdSeconds (Finite 3), TgPause,
      [(3, CycleTimer, Finite 5000), (4, CountdownTick, Finite 1000)], 4, Some (Num 5))"
    using tick_down [OF v5] by simp
  have v7: "timer_view ?s7 =
     (Finite 5000, Some 3, Some 4, Finite 2, True, CdSeconds (Finite 2), TgPause,
      [(3, CycleTimer, Finite 5000), (4, CountdownTick, Finite 1000)], 4, Some (Num 5))"
    using tick_down [OF v6] by simp
  have v8: "timer_view ?s8 =
     (Finite 5000, Some 3, Some 4, Finite 1, True, CdSeconds (Finite 1), TgPause,
      [(3, CycleTimer, Finite 5000), (4, CountdownTick, Finite 1000)], 4, Some (Num 5))"
    using tick_down [OF v7] by simp
  have v9: "timer_view (step tick_4 ?s8) =
     (Finite 5000, Some 3, Some 4, Finite 5, True, CdSeconds (Finite 5), TgPause,
      [(3, CycleTimer, Finite 5000), (4, CountdownTick, Finite 1000)], 4, Some (Num 5))"
    using tick_wrap [OF v8] by simp
  have r4: "run (take 4 count_to_one) ?s0 = ?s4"
    unfolding count_to_one_def run_def by (simp del: step.simps)
  have r8: "run count_to_one ?s0 = ?s8"
    unfolding count_to_one_def run_def by (simp del: step.simps)
  show "timer_view (run (take 4 count_to_one) (startAuto page_load)) =
     (Finite 5000, Some 3, Some 4, Finite 5, True, CdSeconds (Finite 3), TgPause,
      [(3, CycleTimer, Finite 5000), (4, CountdownTick, Finite 1000)], 4, Some (Num 5))"
    unfolding r4 by (rule v4)
  show "timer_view (run count_to_one (startAuto page_load)) =
     (Finite 5000, Some 3, Some 4, Finite 1, True, CdSeconds (Finite 1), TgPause,
      [(3, CycleTimer, Finite 5000), (4, CountdownTick, Finite 1000)], 4, Some (Num 5))"
    unfolding r8 by (rule v8)
  show "timer_view (run (count_to_one @ [tick_4]) (startAuto page_load)) =
     (Finite 5000, Some 3, Some 4, Finite 5, True, CdSeconds (Finite 5), TgPause,
      [(3, CycleTimer, Finite 5000), (4, CountdownTick, Finite 1000)], 4, Some (Num 5))"
    unfolding run_snoc r8 by (rule v9)
qed

theorem countdown_display_in_range_witness:
  "autoEnabled (run (count_to_one @ [tick_4]) (startAuto page_load))
   \<and> armed (run (count_to_one @ [tick_4]) (startAuto page_load))
   \<and> autoInterval (run (count_to_one @ [tick_4]) (startAuto page_load)) = Finite 5000
   \<and> floor_div1000 (Finite 5000) = Finite 5
   \<and> countdownRemaining (run (take 4 count_to_one) (startAuto page_load)) = Finite 5
   \<and> countdownEl (run (take 4 count_to_one) (startAuto page_load)) = CdSeconds (Finite 3)
   \<and> countdownEl (run count_to_one (startAuto page_load)) = CdSeconds (Finite 1)
   \<and> countdownEl (run (count_to_one @ [tick_4]) (startAuto page_load)) = CdSeconds (Finite 5)
   \<and> countdownRemaining (run (count_to_one @ [tick_4]) (startAuto page_load)) = Finite 5"
proof -
  note v = count_to_one_views [unfolded timer_view_def prod.inject]
  have e: "autoEnabled (run (count_to_one @ [tick_4]) (startAuto page_load))"
    using v(3) by simp
  from countdown_display_in_range [OF idle_page_load e]
  have "armed (run (count_to_one @ [tick_4]) (startAuto page_load))" by simp
  then show ?thesis using v by (simp add: floor_5)
qed

text \<open>
  C4 as stated fails for an interval whose milliseconds overflow: with the input set to
  1e308 (a valid value, at least 5) auto-refresh stays enabled, and the interval, the
  remaining seconds and the text of the countdown element are \<open>Infinity\<close>, which is no
  integer between 1 and a number of seconds.
\<close>

theorem countdown_overflow_counterexample:
  "\<not> invalid_secs (Num (10 ^ 308))
   \<and> autoEnabled (run [SecondsChange (Num (10 ^ 308))] (startAuto page_load))
   \<and> autoInterval (run [SecondsChange (Num (10 ^ 308))] (startAuto page_load)) = PosInf
   \<and> countdownRemaining (run [SecondsChange (Num (10 ^ 308))] (startAuto page_load)) = PosInf
   \<and> countdownEl (run [SecondsChange (Num (10 ^ 308))] (startAuto page_load)) = CdSeconds PosInf"
proof -
  let ?p = "(startAuto page_load)\<lparr>refreshSecondsInput := Some (Num (10 ^ 308))\<rparr>"
  have v: "\<not> invalid_secs (Num (10 ^ 308))" by (simp add: invalid_secs_def)
  have c: "armed ?p \<or> idle ?p"
    unfolding startAuto_page_load by (simp add: armed_def page_load_def)
  have en: "autoEnabled ?p" unfolding startAuto_page_load by (simp add: page_load_def)
  have r: "run [SecondsChange (Num (10 ^ 308))] (startAuto page_load) = startAuto ?p"
    unfolding startAuto_page_load
    by (simp add: run_def seconds_change_def invalid_secs_def page_load_def)
  have f: "\<lfloor>(10::real) ^ 308\<rfloor> = 10 ^ 308"
    using floor_of_int [of "10 ^ 308", where ?'a = real] by simp
  have "times1000 (fl_int (10 ^ 308)) = PosInf" by (rule times1000_overflow) simp
  then have i: "autoInterval (startAuto ?p) = PosInf"
    unfolding startAuto_interval(1) [OF c]
    by (simp add: number_or_def validatedSecs_def floor_num_def f max5000_def)
  show ?thesis
    unfolding r using v i en startAuto_interval(2,3) [OF c] startAuto_interval(5) [OF c]
    by (simp add: floor_div1000_def)
qed

text \<open>
  Above \<open>2 ^ 53\<close> a decrement can be lost to rounding: with the input set to 1e17 the
  countdown starts at 1e17 and a tick leaves it there (1e17 - 1 rounds to 1e17).
\<close>

lemma countdown_stuck_example:
  "countdownEl (run [SecondsChange (Num (10 ^ 17))] (startAuto page_load)) = CdSeconds (Finite (10 ^ 17))
   \<and> countdownEl (run [SecondsChange (Num (10 ^ 17)), tick_4] (startAuto page_load))
       = CdSeconds (Finite (10 ^ 17))"
proof -
  let ?p = "(startAuto page_load)\<lparr>refreshSecondsInput := Some (Num (10 ^ 17))\<rparr>"
  let ?ts = "[(3, CycleTimer, Finite (10 ^ 20)), (4::nat, CountdownTick, Finite 1000)]"
  have f: "\<lfloor>(10::real) ^ 17\<rfloor> = 10 ^ 17"
    using floor_of_int [of "10 ^ 17", where ?'a = real] by simp
  have d17: "fl_int (10 ^ 17) = Finite (10 ^ 17)"
    using rnd_repr [of "5 ^ 17" 17] by (intro fl_int_double) simp_all
  have d20: "fl_int (10 ^ 20) = Finite (10 ^ 20)"
    using rnd_repr [of "5 ^ 20" 20] by (intro fl_int_double) simp_all
  have q: "floor_div1000 (Finite (10 ^ 20)) = Finite (10 ^ 17)"
    using floor_div1000_mult [of "10 ^ 17"] d17 by simp
  have "bitlen (10 ^ 17 - 1) \<le> 57" "\<not> bitlen (10 ^ 17 - 1) \<le> 56"
    unfolding bitlen_le_iff_power by simp_all
  then have b: "bitlen (10 ^ 17 - 1) = 57" by simp
  have "rnd (10 ^ 17 - 1) = 10 ^ 17"
    using rnd_big [of "10 ^ 17 - 1"] unfolding b by (simp add: rne_def)
  then have m: "minus1 (Finite (10 ^ 17)) = Finite (10 ^ 17)"
    by (simp add: minus1_def fl_int_def dbl_of_def)
  have v: "timer_view (seconds_change (Num (10 ^ 17)) (startAuto page_load)) =
     (Finite (10 ^ 20), Some 3, Some 4, Finite (10 ^ 17), True, CdSeconds (Finite (10 ^ 17)), TgPause,
      ?ts, 4, Some (Num (10 ^ 17)))"
    unfolding startAuto_page_load
    by (simp add: seconds_change_def invalid_secs_def startAuto_def stopAuto_def truthy_id_def
        clearInterval_def page_load_def number_or_def validatedSecs_def toggle_label_def
        setInterval_def Let_def floor_num_def times1000_def f [simplified] d17 [simplified]
        d20 [simplified] q [simplified] max5000_def timer_view_def)
  have "timer_view (fire 4 manila offline clock_now (seconds_change (Num (10 ^ 17)) (startAuto page_load))) =
     (Finite (10 ^ 20), Some 3, Some 4, Finite (10 ^ 17), True, CdSeconds (Finite (10 ^ 17)), TgPause,
      ?ts, 4, Some (Num (10 ^ 17)))"
    using tick_view [OF v, of 4 "Finite 1000" manila offline clock_now]
    by (simp add: m [simplified] le_zero_def)
  then show ?thesis
    using v by (simp add: run_def tick_4_def timer_view_def)
qed

section \<open>Changing the interval\<close>

lemma validatedSecs_invalid: "invalid_secs v \<Longrightarrow> validatedSecs v = Num 30"
  by (cases v) (simp_all add: invalid_secs_def validatedSecs_def)

text \<open>
  C9, as amended.  When the interval input is set to a value that is not a number or
  is less than 5, the change handler replaces it by 30 (startAuto's own validation would
  choose 30 as well), the interval becomes 30000 ms and the countdown 30.  If
  auto-refresh is enabled both timers are armed anew with that interval and the display
  shows 30; if it is paused no timer is armed and the display shows the paused indicator.
\<close>

theorem invalid_interval_defaults_to_30:
  assumes inv: "invalid_secs v" and present: "refreshSecondsInput s \<noteq> None"
    and cons: "armed s \<or> idle s"
  shows "validatedSecs v = Num 30
       \<and> refreshSecondsInput (seconds_change v s) = Some (Num 30)
       \<and> autoInterval (seconds_change v s) = Finite 30000
       \<and> countdownRemaining (seconds_change v s) = Finite 30
       \<and> (if autoEnabled s
           then armed (seconds_change v s) \<and> countdownEl (seconds_change v s) = CdSeconds (Finite 30)
           else idle (seconds_change v s) \<and> countdownEl (seconds_change v s) = CdPaused)"
proof -
  let ?s1 = "s\<lparr>refreshSecondsInput := Some (Num 30)\<rparr>"
  have sc: "seconds_change v s = startAuto ?s1"
    using inv present by (auto simp add: seconds_change_def)
  have c1: "armed ?s1 \<or> idle ?s1"
    using cons by (simp add: armed_def idle_def)
  have i: "autoInterval (startAuto ?s1) = Finite 30000"
    using startAuto_interval(1) [OF c1] by (simp add: number_or_def validatedSecs_def floor_30 max5000_def)
  have "if autoEnabled s then armed (startAuto ?s1) else idle (startAuto ?s1) \<and> countdownEl (startAuto ?s1) = CdPaused"
    using startAuto_interval(6) [OF c1] by simp
  moreover have "autoEnabled s \<Longrightarrow> countdownEl (startAuto ?s1) = CdSeconds (Finite 30)"
    using startAuto_interval(5) [OF c1] i by (simp add: floor_30)
  ultimately show ?thesis
    unfolding sc using i startAuto_interval(2,4) [OF c1] validatedSecs_invalid [OF inv]
    by (simp add: floor_30 split: if_splits)
qed

theorem invalid_interval_defaults_to_30_witness:
  "invalid_secs (Num 2)
   \<and> autoInterval (seconds_change (Num 2) (startAuto (page_load\<lparr>refreshSecondsInput := Some (Num 60)\<rparr>))) = Finite 30000
   \<and> armed (seconds_change (Num 2) (startAuto (page_load\<lparr>refreshSecondsInput := Some (Num 60)\<rparr>)))
   \<and> countdownEl (seconds_change (Num 2) (startAuto (page_load\<lparr>refreshSecondsInput := Some (Num 60)\<rparr>)))
       = CdSeconds (Finite 30)"
proof -
  let ?p = "page_load\<lparr>refreshSecondsInput := Some (Num 60)\<rparr>"
  have inv: "invalid_secs (Num 2)" by (simp add: invalid_secs_def)
  have c0: "armed ?p \<or> idle ?p" by (simp add: idle_def page_load_def)
  have pr: "refreshSecondsInput (startAuto ?p) \<noteq> None"
    using startAuto_interval(4) [OF c0] by simp
  have en: "autoEnabled (startAuto ?p)"
    using startAuto_interval(3) [OF c0] by (simp add: page_load_def)
  have c1: "armed (startAuto ?p) \<or> idle (startAuto ?p)"
    by (rule startAuto_consistent [OF c0])
  from invalid_interval_defaults_to_30 [OF inv pr c1] en inv
  show ?thesis by simp
qed

text \<open>
  C9 as stated fails when auto-refresh is paused: the interval becomes 30 seconds, but
  startAuto returns before arming and no timer exists afterwards.
\<close>

theorem paused_interval_change_counterexample:
  "invalid_secs NaN
   \<and> \<not> autoEnabled (page_load\<lparr>autoEnabled := False\<rparr>)
   \<and> autoInterval (seconds_change NaN (page_load\<lparr>autoEnabled := False\<rparr>)) = Finite 30000
   \<and> intervals (seconds_change NaN (page_load\<lparr>autoEnabled := False\<rparr>)) = []
   \<and> autoTimerId (seconds_change NaN (page_load\<lparr>autoEnabled := False\<rparr>)) = None
   \<and> countdownTimerId (seconds_change NaN (page_load\<lparr>autoEnabled := False\<rparr>)) = None
   \<and> countdownEl (seconds_change NaN (page_load\<lparr>autoEnabled := False\<rparr>)) = CdPaused"
  by (simp add: seconds_change_def invalid_secs_def startAuto_def stopAuto_def truthy_id_def
      page_load_def number_or_def validatedSecs_def toggle_label_def Let_def floor_30 max5000_def)

end
